theory Spec2Isabelle
  imports Main "HOL-Library.Char_ord" "HOL-Library.List_Lexorder"
begin

text \<open>
  A shallow embedding of the sidecar classes (\<open>sidecar-generation/sidecars\<close>), of the pass
  over packages in \<open>channels_processor.py\<close>, and of path resolution and duplicate cleanup
  in \<open>dataset_manager/packages.py\<close>, with the properties claimed of them. Definitions
  keep the names of the source; a function that raises returns the exception as a value, and
  a loop that may run forever is a partial function.
\<close>

section \<open>File names: path components and the duplicate-name mapping\<close>

text \<open>
  \<open>dataset_manager/packages.py\<close>, \<open>_get_duplicate_name\<close> and \<open>_get_original_name\<close>.
  Strings are lists of characters. \<open>pathlib.Path\<close> on a POSIX system splits its argument
  at \<open>/\<close> and drops empty and \<open>.\<close> components; \<open>name\<close> is the last component that
  remains (the empty string when there is none). \<open>suffix\<close> and \<open>stem\<close> cut the name at
  its last dot \<open>i = name.rfind('.')\<close> when \<open>0 < i < len(name) - 1\<close>, as CPython 3.8 to
  3.13 do.
\<close>

fun split_on :: "char \<Rightarrow> string \<Rightarrow> string list" where
  "split_on d [] = [[]]"
| "split_on d (c # cs) =
     (if c = d then [] # split_on d cs
      else (case split_on d cs of [] \<Rightarrow> [[c]] | w # ws \<Rightarrow> (c # w) # ws))"

definition path_parts :: "string \<Rightarrow> string list" where
  "path_parts s = filter (\<lambda>c. c \<noteq> [] \<and> c \<noteq> ''.'') (split_on CHR ''/'' s)"

definition path_name :: "string \<Rightarrow> string" where
  "path_name s = (case path_parts s of [] \<Rightarrow> [] | p # ps \<Rightarrow> last (p # ps))"

definition rfind :: "char \<Rightarrow> string \<Rightarrow> int" where
  "rfind c s =
     (if c \<in> set s then int (length s) - 1 - int (length (takeWhile (\<lambda>x. x \<noteq> c) (rev s)))
      else - 1)"

definition path_suffix :: "string \<Rightarrow> string" where
  "path_suffix p =
     (let name = path_name p; i = rfind CHR ''.'' name
      in if 0 < i \<and> i < int (length name) - 1 then drop (nat i) name else [])"

definition path_stem :: "string \<Rightarrow> string" where
  "path_stem p =
     (let name = path_name p; i = rfind CHR ''.'' name
      in if 0 < i \<and> i < int (length name) - 1 then take (nat i) name else name)"

definition get_duplicate_name :: "string \<Rightarrow> string" where
  "get_duplicate_name filename =
     (let stem = path_stem filename; suffix = path_suffix filename
      in stem @ '' (1)'' @ suffix)"

text \<open>
  \<open>re.match(r'^(.+) \(1\)(\.[^.]+)$', duplicate_name)\<close>, written out as the backtracking
  search the pattern stands for. \<open>backtrack g m\<close> tries the lengths \<open>m, m - 1, \<dots>, 1\<close> of a
  greedy repetition and keeps the first that lets the rest of the pattern match. \<open>.\<close> matches
  any character but the line feed, \<open>[^.]\<close> any character but the dot, and \<open>$\<close> matches at
  the end of the string or before a line feed that ends it.
\<close>

definition newline :: char where
  "newline = CHR 0x0A"

fun backtrack :: "(nat \<Rightarrow> 'a option) \<Rightarrow> nat \<Rightarrow> 'a option" where
  "backtrack g 0 = None"
| "backtrack g (Suc n) = (case g (Suc n) of Some v \<Rightarrow> Some v | None \<Rightarrow> backtrack g n)"

definition at_end :: "string \<Rightarrow> bool" where
  "at_end r = (r = [] \<or> r = [newline])"

definition match_ext :: "string \<Rightarrow> string option" where
  "match_ext r =
     (case r of
        [] \<Rightarrow> None
      | c # t \<Rightarrow>
          if c \<noteq> CHR ''.'' then None
          else backtrack (\<lambda>k. if at_end (drop k t) then Some (c # take k t) else None)
                 (length (takeWhile (\<lambda>x. x \<noteq> CHR ''.'') t)))"

definition match_tail :: "string \<Rightarrow> string option" where
  "match_tail r = (if take 4 r = '' (1)'' then match_ext (drop 4 r) else None)"

definition match_duplicate :: "string \<Rightarrow> (string \<times> string) option" where
  "match_duplicate s =
     backtrack (\<lambda>n. map_option (\<lambda>g2. (take n s, g2)) (match_tail (drop n s)))
       (length (takeWhile (\<lambda>x. x \<noteq> newline) s))"

definition get_original_name :: "string \<Rightarrow> string" where
  "get_original_name duplicate_name =
     (case match_duplicate duplicate_name of
        Some (g1, g2) \<Rightarrow> g1 @ g2
      | None \<Rightarrow> duplicate_name)"

section \<open>Packages and path resolution\<close>

text \<open>
  A package of the platform's listing, \<open>{"content": {"id", "nodeId", "name", "parentId",
  "packageType", "state"}}\<close>. The code reads every field with \<open>.get\<close>, so each field is
  optional, and a package without \<open>content\<close> is the package whose fields are all absent.
\<close>

record package =
  content_id :: "string option"
  content_nodeId :: "string option"
  content_name :: "string option"
  content_parentId :: "string option"
  content_packageType :: "string option"
  content_state :: "string option"

definition get_default :: "string option \<Rightarrow> string \<Rightarrow> string" where
  "get_default v d = (case v of None \<Rightarrow> d | Some s \<Rightarrow> s)"

text \<open>
  \<open>get_package_path\<close>: the index \<open>id \<rightarrow> package\<close> (a later package with the same id
  replaces an earlier one; a missing or empty id is skipped), then the \<open>while True\<close> walk up
  the parent ids. The walk may not return, so it is a partial function whose value \<open>None\<close>
  is divergence. \<open>steps\<close> counts the parents visited; it is not in the source.
\<close>

fun pkg_lookup_loop :: "(string \<rightharpoonup> package) \<Rightarrow> package list \<Rightarrow> (string \<rightharpoonup> package)" where
  "pkg_lookup_loop pkg_lookup [] = pkg_lookup"
| "pkg_lookup_loop pkg_lookup (pkg # rest) =
     (case content_id pkg of
        None \<Rightarrow> pkg_lookup_loop pkg_lookup rest
      | Some pkg_id \<Rightarrow>
          if pkg_id \<noteq> [] then pkg_lookup_loop (pkg_lookup(pkg_id \<mapsto> pkg)) rest
          else pkg_lookup_loop pkg_lookup rest)"

partial_function (option) path_walk ::
  "(string \<rightharpoonup> package) \<Rightarrow> package \<Rightarrow> string list \<Rightarrow> nat \<Rightarrow> (string list \<times> nat) option" where
  "path_walk pkg_lookup current parts steps =
     (case content_parentId current of
        None \<Rightarrow> Some (parts, steps)
      | Some parent_id \<Rightarrow>
          if parent_id = [] then Some (parts, steps)
          else (case pkg_lookup parent_id of
                  None \<Rightarrow> Some (parts, steps)
                | Some parent \<Rightarrow>
                    let parent_name = get_default (content_name parent) []
                    in path_walk pkg_lookup parent
                         (if parent_name \<noteq> [] then parent_name # parts else parts)
                         (Suc steps)))"

fun str_join :: "string \<Rightarrow> string list \<Rightarrow> string" where
  "str_join sep [] = []"
| "str_join sep [x] = x"
| "str_join sep (x # y # ys) = x @ sep @ str_join sep (y # ys)"

definition get_package_path_steps :: "package \<Rightarrow> package list \<Rightarrow> (string \<times> nat) option" where
  "get_package_path_steps package all_packages =
     (case path_walk (pkg_lookup_loop Map.empty all_packages) package [] 0 of
        None \<Rightarrow> None
      | Some (parts, steps) \<Rightarrow> Some (str_join ''/'' parts, steps))"

definition get_package_path :: "package \<Rightarrow> package list \<Rightarrow> string option" where
  "get_package_path package all_packages = map_option fst (get_package_path_steps package all_packages)"

text \<open>
  The first \<open>k\<close> parent ids that the walk resolves from \<open>current\<close>, for stating which
  package lists are free of revisits. It follows the same tests as the walk.
\<close>

fun parent_chain :: "nat \<Rightarrow> (string \<rightharpoonup> package) \<Rightarrow> package \<Rightarrow> string list" where
  "parent_chain 0 pkg_lookup current = []"
| "parent_chain (Suc k) pkg_lookup current =
     (case content_parentId current of
        None \<Rightarrow> []
      | Some parent_id \<Rightarrow>
          if parent_id = [] then []
          else (case pkg_lookup parent_id of
                  None \<Rightarrow> []
                | Some parent \<Rightarrow> parent_id # parent_chain k pkg_lookup parent))"

text \<open>The parent the walk moves to, and the package reached after \<open>j\<close> moves.\<close>

definition parent_of :: "(string \<rightharpoonup> package) \<Rightarrow> package \<Rightarrow> package option" where
  "parent_of pkg_lookup current =
     (case content_parentId current of
        None \<Rightarrow> None
      | Some parent_id \<Rightarrow> if parent_id = [] then None else pkg_lookup parent_id)"

fun ancestor :: "nat \<Rightarrow> (string \<rightharpoonup> package) \<Rightarrow> package \<Rightarrow> package option" where
  "ancestor 0 pkg_lookup current = Some current"
| "ancestor (Suc j) pkg_lookup current =
     (case parent_of pkg_lookup current of
        None \<Rightarrow> None
      | Some parent \<Rightarrow> ancestor j pkg_lookup parent)"

text \<open>Sample packages: two that name each other as parent, and a chain \<open>ieeg/sub01/p.tsv\<close>.\<close>

definition pkgA :: package where
  "pkgA = \<lparr>content_id = Some ''a'', content_nodeId = Some ''N:a'', content_name = Some ''ieeg'',
           content_parentId = Some ''b'', content_packageType = Some ''Collection'',
           content_state = Some ''READY''\<rparr>"

definition pkgB :: package where
  "pkgB = \<lparr>content_id = Some ''b'', content_nodeId = Some ''N:b'', content_name = Some ''sub01'',
           content_parentId = Some ''a'', content_packageType = Some ''Collection'',
           content_state = Some ''READY''\<rparr>"

definition pkgC :: package where
  "pkgC = \<lparr>content_id = Some ''c'', content_nodeId = Some ''N:c'', content_name = Some ''p.tsv'',
           content_parentId = Some ''b'', content_packageType = Some ''CSV'',
           content_state = Some ''READY''\<rparr>"

definition pkgRoot :: package where
  "pkgRoot = \<lparr>content_id = Some ''a'', content_nodeId = Some ''N:a'', content_name = Some ''ieeg'',
           content_parentId = None, content_packageType = Some ''Collection'',
           content_state = Some ''READY''\<rparr>"

section \<open>Duplicate cleanup and deletion lookups\<close>

text \<open>
  A candidate of \<open>cleanup_duplicates\<close>: the \<open>{dataset}\<close> placeholder is replaced, then
  \<open>Path(file_path)\<close> gives \<open>parent_folder\<close> (\<open>str(p.parent)\<close>, or the empty string when the
  parent is \<open>Path('.')\<close>) and \<open>filename\<close> (\<open>p.name\<close>).
\<close>

definition path_root :: "string \<Rightarrow> string" where
  "path_root s =
     (if take 2 s = ''//'' \<and> take 3 s \<noteq> ''///'' then ''//''
      else if take 1 s = ''/'' then ''/''
      else [])"

definition parent_folder_of :: "string \<Rightarrow> string" where
  "parent_folder_of file_path =
     (let root = path_root file_path; parent_parts = butlast (path_parts file_path)
      in if root = [] \<and> parent_parts = [] then []
         else root @ str_join ''/'' parent_parts)"

fun replace_from :: "string \<Rightarrow> string \<Rightarrow> nat \<Rightarrow> string \<Rightarrow> string" where
  "replace_from old new k [] = []"
| "replace_from old new (Suc k) (c # cs) = replace_from old new k cs"
| "replace_from old new 0 (c # cs) =
     (if old \<noteq> [] \<and> take (length old) (c # cs) = old
      then new @ replace_from old new (length old - 1) cs
      else c # replace_from old new 0 cs)"

definition str_replace :: "string \<Rightarrow> string \<Rightarrow> string \<Rightarrow> string" where
  "str_replace old new s = replace_from old new 0 s"

definition candidate_of :: "string \<Rightarrow> string \<Rightarrow> string \<times> string" where
  "candidate_of dataset_name file_path_template =
     (let file_path = str_replace ''{dataset}'' dataset_name file_path_template;
          parent_folder = parent_folder_of file_path;
          filename = path_name file_path
      in (parent_folder, filename))"

text \<open>
  The manager. \<open>_make_request\<close> is the platform's answer and is a parameter: for a request and
  the remote state it says whether the result is not \<open>None\<close>, and gives the new remote state.
  \<open>calls\<close> records every call of \<open>delete_package\<close> and \<open>rename_package\<close> (the line each of
  them logs first), so that a theorem can say which calls were made; in a dry run the call is
  recorded, no request is sent, and the answer is \<open>True\<close>.
\<close>

datatype op = DeletePackage "string option" | RenamePackage "string option" string

record 'r manager =
  dry_run :: bool
  remote :: 'r
  calls :: "op list"

definition delete_package ::
  "('r \<Rightarrow> op \<Rightarrow> bool \<times> 'r) \<Rightarrow> 'r manager \<Rightarrow> string option \<Rightarrow> bool \<times> 'r manager" where
  "delete_package make_request self package_id =
     (let self1 = self\<lparr>calls := calls self @ [DeletePackage package_id]\<rparr>
      in if dry_run self then (True, self1)
         else (case make_request (remote self) (DeletePackage package_id) of
                 (ok, r) \<Rightarrow> (ok, self1\<lparr>remote := r\<rparr>)))"

definition rename_package ::
  "('r \<Rightarrow> op \<Rightarrow> bool \<times> 'r) \<Rightarrow> 'r manager \<Rightarrow> string option \<Rightarrow> string \<Rightarrow> bool \<times> 'r manager" where
  "rename_package make_request self package_id new_name =
     (let self1 = self\<lparr>calls := calls self @ [RenamePackage package_id new_name]\<rparr>
      in if dry_run self then (True, self1)
         else (case make_request (remote self) (RenamePackage package_id new_name) of
                 (ok, r) \<Rightarrow> (ok, self1\<lparr>remote := r\<rparr>)))"

text \<open>
  The indexes built from the package list: by \<open>(path, name)\<close> in \<open>cleanup_duplicates\<close>, by
  full path in \<open>delete_by_path\<close>. Each entry needs the package's path, so the index exists
  only when every path resolution returns.
\<close>

fun pkg_by_location_loop ::
  "package list \<Rightarrow> (string \<times> string \<rightharpoonup> package) \<Rightarrow> package list
   \<Rightarrow> (string \<times> string \<rightharpoonup> package) option" where
  "pkg_by_location_loop packages pkg_by_location [] = Some pkg_by_location"
| "pkg_by_location_loop packages pkg_by_location (pkg # rest) =
     (let name = get_default (content_name pkg) []
      in case get_package_path pkg packages of
           None \<Rightarrow> None
         | Some pkg_path \<Rightarrow>
             pkg_by_location_loop packages (pkg_by_location((pkg_path, name) \<mapsto> pkg)) rest)"


text \<open>
  The loop of \<open>cleanup_duplicates\<close> over \<open>file_paths\<close>. A package is a non-empty dictionary,
  so the truth tests on \<open>original_pkg\<close> and \<open>duplicate_pkg\<close> are presence tests. In
  \<open>cleanup_duplicates\<close>, \<open>dataset_packages\<close> is \<open>None\<close> when \<open>find_dataset_by_name\<close> finds no
  dataset and the listed packages otherwise.
\<close>

fun cleanup_loop ::
  "('r \<Rightarrow> op \<Rightarrow> bool \<times> 'r) \<Rightarrow> string \<Rightarrow> (string \<times> string \<rightharpoonup> package) \<Rightarrow> string list
   \<Rightarrow> nat \<Rightarrow> nat \<Rightarrow> 'r manager \<Rightarrow> (nat \<times> nat) \<times> 'r manager" where
  "cleanup_loop make_request dataset_name pkg_by_location [] success_count skip_count self =
     ((success_count, skip_count), self)"
| "cleanup_loop make_request dataset_name pkg_by_location (file_path_template # rest)
       success_count skip_count self =
     (case candidate_of dataset_name file_path_template of
        (parent_folder, filename) \<Rightarrow>
          let duplicate_name = get_duplicate_name filename;
              original_pkg = pkg_by_location (parent_folder, filename);
              duplicate_pkg = pkg_by_location (parent_folder, duplicate_name)
          in case (original_pkg, duplicate_pkg) of
               (None, None) \<Rightarrow>
                 cleanup_loop make_request dataset_name pkg_by_location rest
                   success_count (Suc skip_count) self
             | (Some original, None) \<Rightarrow>
                 cleanup_loop make_request dataset_name pkg_by_location rest
                   success_count (Suc skip_count) self
             | (None, Some duplicate) \<Rightarrow>
                 cleanup_loop make_request dataset_name pkg_by_location rest
                   success_count (Suc skip_count) self
             | (Some original, Some duplicate) \<Rightarrow>
                 let original_id = content_nodeId original;
                     duplicate_id = content_nodeId duplicate
                 in case delete_package make_request self original_id of
                      (deleted, self1) \<Rightarrow>
                        if \<not> deleted
                        then cleanup_loop make_request dataset_name pkg_by_location rest
                               success_count (Suc skip_count) self1
                        else case rename_package make_request self1 duplicate_id filename of
                               (renamed, self2) \<Rightarrow>
                                 if \<not> renamed
                                 then cleanup_loop make_request dataset_name pkg_by_location rest
                                        success_count (Suc skip_count) self2
                                 else cleanup_loop make_request dataset_name pkg_by_location rest
                                        (Suc success_count) skip_count self2)"

definition cleanup_duplicates ::
  "('r \<Rightarrow> op \<Rightarrow> bool \<times> 'r) \<Rightarrow> package list option \<Rightarrow> string \<Rightarrow> string list \<Rightarrow> 'r manager
   \<Rightarrow> ((nat \<times> nat) \<times> 'r manager) option" where
  "cleanup_duplicates make_request dataset_packages dataset_name file_paths self =
     (case dataset_packages of
        None \<Rightarrow> Some ((0, length file_paths), self)
      | Some packages \<Rightarrow>
          (case pkg_by_location_loop packages Map.empty packages of
             None \<Rightarrow> None
           | Some pkg_by_location \<Rightarrow>
               Some (cleanup_loop make_request dataset_name pkg_by_location file_paths 0 0 self)))"

section \<open>Channel-row building: the pass over the packages\<close>


definition lower_char :: "char \<Rightarrow> char" where
  "lower_char c =
     (if 65 \<le> (of_char c :: nat) \<and> (of_char c :: nat) \<le> 90 then char_of (of_char c + (32 :: nat)) else c)"

definition lower :: "string \<Rightarrow> string" where
  "lower s = map lower_char s"


definition endswith :: "string \<Rightarrow> string \<Rightarrow> bool" where
  "endswith s suffix = (length suffix \<le> length s \<and> drop (length s - length suffix) s = suffix)"

definition startswith :: "string \<Rightarrow> string \<Rightarrow> bool" where
  "startswith s prefix = (take (length prefix) s = prefix)"





text \<open>The folder \<open>f\<close> holding \<open>p.tsv\<close> and \<open>p (1).tsv\<close>; a platform that accepts every request.\<close>

definition folderF :: package where
  "folderF = \<lparr>content_id = Some ''f'', content_nodeId = Some ''N:f'', content_name = Some ''f'',
              content_parentId = None, content_packageType = Some ''Collection'',
              content_state = Some ''READY''\<rparr>"

definition fileP :: package where
  "fileP = \<lparr>content_id = Some ''p'', content_nodeId = Some ''N:p'', content_name = Some ''p.tsv'',
            content_parentId = Some ''f'', content_packageType = Some ''CSV'',
            content_state = Some ''READY''\<rparr>"

definition fileP1 :: package where
  "fileP1 = \<lparr>content_id = Some ''p1'', content_nodeId = Some ''N:p1'', content_name = Some ''p (1).tsv'',
             content_parentId = Some ''f'', content_packageType = Some ''CSV'',
             content_state = Some ''READY''\<rparr>"

definition accept_all :: "unit \<Rightarrow> op \<Rightarrow> bool \<times> unit" where
  "accept_all r request = (True, r)"

definition manager0 :: "unit manager" where
  "manager0 = \<lparr>dry_run = False, remote = (), calls = []\<rparr>"


section \<open>Sidecars: values, dictionaries, construction\<close>

text \<open>
  Python values that reach a sidecar. A float is kept as mantissa and binary exponent; a
  dictionary keeps its insertion order, so it is an association list whose keys are distinct.
\<close>

datatype pyval =
    PNone
  | PBool bool
  | PInt int
  | PFloat int int
  | PStr string
  | PList "pyval list"
  | PDict "(string \<times> pyval) list"

type_synonym pydict = "(string \<times> pyval) list"

definition keys :: "(string \<times> 'v) list \<Rightarrow> string list" where
  "keys d = map fst d"

definition dict_get :: "(string \<times> 'v) list \<Rightarrow> string \<Rightarrow> 'v option" where
  "dict_get d k = map_of d k"

fun dict_set :: "(string \<times> 'v) list \<Rightarrow> string \<Rightarrow> 'v \<Rightarrow> (string \<times> 'v) list" where
  "dict_set [] k v = [(k, v)]"
| "dict_set ((k', v') # d) k v = (if k' = k then (k, v) # d else (k', v') # dict_set d k v)"

text \<open>\<open>{**a, **b}\<close>: the keys of \<open>a\<close> in their order, overridden by \<open>b\<close>, then the new keys of \<open>b\<close>.\<close>

definition dict_merge :: "(string \<times> 'v) list \<Rightarrow> (string \<times> 'v) list \<Rightarrow> (string \<times> 'v) list" where
  "dict_merge a b = foldl (\<lambda>d (k, v). dict_set d k v) a b"

definition excluded_fields :: "string list" where
  "excluded_fields = [''output_dir'', ''input_dir'', ''bids_path'']"

text \<open>
  Exceptions are values. The \<open>ValueError\<close>s are told apart by what raises them: the empty
  data of \<open>write_data\<close>, the schema, the missing required fields, and the extra keys of
  \<open>csv.DictWriter\<close>.
\<close>

datatype py_error =
    TypeError
  | OverflowError
  | KeyError
  | AttributeError
  | FileNotFoundError
  | ValueError_NoData
  | ValueError_Schema nat
  | ValueError_MissingRequired "string list"
  | ValueError_ExtraFields

text \<open>
  What \<open>hasattr\<close> and \<open>setattr\<close> find under a name on the class of an instance and on its
  bases, \<open>object\<close> included. \<open>NoAttribute\<close>: no class defines the name. \<open>Attribute\<close>: a class
  defines it (a class-level value or a method) and an assignment on the instance stores an
  instance attribute. \<open>Refused e\<close>: the name is defined and an assignment on the instance
  raises \<open>e\<close> (a property without a setter, \<open>__weakref__\<close>, or \<open>__class__\<close> given a value that
  is not a class). \<open>InstanceDict\<close>: the name is \<open>__dict__\<close>; assigning a dictionary replaces
  every instance attribute, assigning anything else raises \<open>TypeError\<close>.
\<close>

datatype attribute = NoAttribute | Attribute | Refused py_error | InstanceDict

text \<open>
  The outcome of a constructor call. \<open>Instance self attrs\<close>: the call returned; \<open>self\<close> holds
  the attributes as the statements of the constructor assigned them, \<open>attrs\<close> the instance
  attributes that the keyword loop of \<open>Sidecar.__init__\<close> assigned after them, in the order of
  their first assignment. An attribute in \<open>attrs\<close> is what a later read of that name on the
  instance returns: it replaces \<open>paths\<close> and \<open>data\<close> of \<open>self\<close> and shadows the class's value.
  The methods of the later sections are those of an instance whose \<open>attrs\<close> is empty.
\<close>

datatype 'a constructed = Raises py_error | Instance 'a pydict

text \<open>\<open>len(v)\<close> returns for a string, a list and a dictionary and raises \<open>TypeError\<close> otherwise.\<close>

fun sized :: "pyval \<Rightarrow> bool" where
  "sized (PStr s) = True"
| "sized (PList xs) = True"
| "sized (PDict d) = True"
| "sized v = False"

record sidecar =
  paths :: pydict
  data :: pydict

text \<open>
  \<open>hasattr(self, k)\<close> inside the keyword loop. Before the loop the instance has the attributes
  \<open>log\<close>, \<open>paths\<close> and \<open>data\<close>; \<open>replaced\<close> tells that an assignment to \<open>__dict__\<close> has removed
  them, and then \<open>attrs\<close> are all the instance attributes there are.
\<close>

definition hasattr :: "(string \<Rightarrow> attribute) \<Rightarrow> bool \<Rightarrow> pydict \<Rightarrow> string \<Rightarrow> bool" where
  "hasattr class_attr replaced attrs k =
     (class_attr k \<noteq> NoAttribute \<or> k \<in> set (keys attrs)
      \<or> (\<not> replaced \<and> k \<in> set [''log'', ''paths'', ''data'']))"

text \<open>\<open>for k, v in kwargs.items(): if hasattr(self, k): setattr(self, k, v)\<close>\<close>

fun setattr_loop :: "(string \<Rightarrow> attribute) \<Rightarrow> pydict \<Rightarrow> bool \<times> pydict \<Rightarrow> py_error + bool \<times> pydict" where
  "setattr_loop class_attr [] st = Inr st"
| "setattr_loop class_attr ((k, v) # kwargs) (replaced, attrs) =
     (if hasattr class_attr replaced attrs k
      then (case class_attr k of
              Refused e \<Rightarrow> Inl e
            | InstanceDict \<Rightarrow>
                (case v of PDict d \<Rightarrow> setattr_loop class_attr kwargs (True, d) | _ \<Rightarrow> Inl TypeError)
            | _ \<Rightarrow> setattr_loop class_attr kwargs (replaced, dict_set attrs k v))
      else setattr_loop class_attr kwargs (replaced, attrs))"

text \<open>
  \<open>Sidecar.__init__\<close>, for the class of the instance (\<open>class_attr\<close>), the \<open>fields\<close> dictionary
  and the dictionary \<open>kwargs\<close> of the keywords that no named parameter took. The paths and the
  data are assigned first, then the keyword loop runs, then the closing \<open>self.log.debug\<close>
  reads \<open>self.log\<close> (which a \<open>log\<close> keyword has replaced by a value without a \<open>debug\<close> method,
  and an assignment to \<open>__dict__\<close> has removed) and \<open>len(self.data)\<close>. The four field tables
  assigned before that line are read by no method and are left out.
\<close>

definition Sidecar_init :: "(string \<Rightarrow> attribute) \<Rightarrow> pydict \<Rightarrow> pydict \<Rightarrow> sidecar constructed" where
  "Sidecar_init class_attr given_fields kwargs =
     (let path_defaults = [(''bids_path'', PStr ''bids_root/''), (''input_dir'', PStr ''input/''),
                           (''output_dir'', PStr ''output/'')];
          merged_paths = dict_merge path_defaults kwargs;
          self = \<lparr>paths = filter (\<lambda>(k, v). k \<in> set excluded_fields) merged_paths,
                  data = filter (\<lambda>(k, v). k \<notin> set excluded_fields) given_fields\<rparr>
      in case setattr_loop class_attr kwargs (False, []) of
           Inl e \<Rightarrow> Raises e
         | Inr (replaced, attrs) \<Rightarrow>
             if replaced \<or> ''log'' \<in> set (keys attrs) then Raises AttributeError
             else if (case dict_get attrs ''data'' of Some v \<Rightarrow> \<not> sized v | None \<Rightarrow> False)
             then Raises TypeError
             else Instance self attrs)"

text \<open>What \<open>self.data\<close> is on a constructed instance.\<close>

definition instance_data :: "'a sidecar_scheme \<Rightarrow> pydict \<Rightarrow> pyval" where
  "instance_data self attrs = (case dict_get attrs ''data'' of Some v \<Rightarrow> v | None \<Rightarrow> PDict (data self))"

text \<open>
  \<open>JSONSidecar.__init__\<close> and \<open>TSVSidecar.__init__\<close> are the same: called with \<open>fields\<close> and
  \<open>**kwargs\<close>, a keyword named \<open>self\<close> or \<open>fields\<close> is a second value for that parameter
  (\<open>TypeError\<close>), the four other named parameters take their keywords, and the rest goes to
  the base constructor.
\<close>

definition named_parameters :: "string list" where
  "named_parameters = [''required_fields'', ''recommended_fields'', ''optional_fields'', ''schema'']"

definition JSONSidecar_init :: "(string \<Rightarrow> attribute) \<Rightarrow> pydict \<Rightarrow> pydict \<Rightarrow> sidecar constructed" where
  "JSONSidecar_init class_attr given_fields kwargs =
     (if ''self'' \<in> set (keys kwargs) \<or> ''fields'' \<in> set (keys kwargs) then Raises TypeError
      else Sidecar_init class_attr given_fields (filter (\<lambda>(k, v). k \<notin> set named_parameters) kwargs))"

definition TSVSidecar_init :: "(string \<Rightarrow> attribute) \<Rightarrow> pydict \<Rightarrow> pydict \<Rightarrow> sidecar constructed" where
  "TSVSidecar_init class_attr given_fields kwargs =
     (if ''self'' \<in> set (keys kwargs) \<or> ''fields'' \<in> set (keys kwargs) then Raises TypeError
      else Sidecar_init class_attr given_fields (filter (\<lambda>(k, v). k \<notin> set named_parameters) kwargs))"

text \<open>
  The constructor that the four JSON sidecar classes share, for the class and
  its \<open>DEFAULTS\<close>: merge, call the parent, then log \<open>len(fields)\<close> and \<open>len(self.DEFAULTS)\<close>,
  where \<open>self.DEFAULTS\<close> is the value of a \<open>DEFAULTS\<close> keyword when there is one.
\<close>

definition JSON_subclass_init ::
  "(string \<Rightarrow> attribute) \<Rightarrow> pydict \<Rightarrow> pydict \<Rightarrow> pydict \<Rightarrow> sidecar constructed" where
  "JSON_subclass_init class_attr DEFAULTS given_fields kwargs =
     (if ''self'' \<in> set (keys kwargs) \<or> ''fields'' \<in> set (keys kwargs) then Raises TypeError
      else let merged_fields = dict_merge DEFAULTS given_fields
           in case JSONSidecar_init class_attr merged_fields kwargs of
                Raises e \<Rightarrow> Raises e
              | Instance self attrs \<Rightarrow>
                  if (case dict_get attrs ''DEFAULTS'' of Some v \<Rightarrow> \<not> sized v | None \<Rightarrow> False)
                  then Raises TypeError
                  else Instance self attrs)"

text \<open>
  The attributes of \<open>object\<close> and \<open>ABC\<close> (CPython 3.11 and 3.12), and the names that the
  sidecar classes declare on top of them.
\<close>

definition object_attr :: "string \<Rightarrow> attribute" where
  "object_attr k =
     (if k = ''__class__'' then Refused TypeError
      else if k = ''__weakref__'' then Refused AttributeError
      else if k = ''__dict__'' then InstanceDict
      else if k \<in> set [''__abstractmethods__'', ''__annotations__'', ''__delattr__'', ''__dir__'',
                        ''__doc__'', ''__eq__'', ''__format__'', ''__ge__'', ''__getattribute__'',
                        ''__getstate__'', ''__gt__'', ''__hash__'', ''__init__'', ''__init_subclass__'',
                        ''__le__'', ''__lt__'', ''__module__'', ''__ne__'', ''__new__'', ''__reduce__'',
                        ''__reduce_ex__'', ''__repr__'', ''__setattr__'', ''__sizeof__'', ''__slots__'',
                        ''__str__'', ''__subclasshook__'', ''_abc_impl'']
      then Attribute else NoAttribute)"

definition Sidecar_attr :: "string \<Rightarrow> attribute" where
  "Sidecar_attr k =
     (if k \<in> set [''excluded_fields'', ''filename'', ''bids_path'', ''input_dir'', ''output_dir'',
                   ''file_format'', ''_logger'', ''_log_dir'', ''json_indent'', ''REQUIRED_FIELDS'',
                   ''RECOMMENDED_FIELDS'', ''OPTIONAL_FIELDS'', ''SCHEMA'', ''configure_logger'',
                   ''get_logger'', ''validate'', ''run_validation'', ''save'', ''write_data'',
                   ''show_field_summary'']
      then Attribute else object_attr k)"

definition JSONSidecar_attr :: "string \<Rightarrow> attribute" where
  "JSONSidecar_attr k =
     (if k \<in> set [''required_fields'', ''recommended_fields'', ''optional_fields'', ''defaults'']
      then Attribute else Sidecar_attr k)"

definition TSVSidecar_attr :: "string \<Rightarrow> attribute" where
  "TSVSidecar_attr k = (if k = ''delimiter'' then Refused AttributeError else Sidecar_attr k)"

text \<open>Each JSON sidecar class adds \<open>DEFAULTS\<close> to the names of its bases.\<close>

definition JSON_subclass_attr :: "string \<Rightarrow> attribute" where
  "JSON_subclass_attr k = (if k = ''DEFAULTS'' then Attribute else JSONSidecar_attr k)"

definition CoordSystem_DEFAULTS :: pydict where
  "CoordSystem_DEFAULTS =
     [(''iEEGCoordinateSystem'', PStr ''fsnative''),
      (''iEEGCoordinateUnits'', PStr ''mm''),
      (''iEEGCoordinateSystemDescription'', PStr ''Native FreeSurfer surface space.''),
      (''iEEGCoordinateProcessingDescription'', PStr ''Processed using FreeSurfer recon-all pipeline.''),
      (''iEEGCoordinateProcessingReference'',
         PStr ''Dale, A.M., Fischl, B., Sereno, M.I., 1999. Cortical surface-based analysis. NeuroImage.'')]"

definition CoordSystemSidecar_init :: "pydict \<Rightarrow> pydict \<Rightarrow> sidecar constructed" where
  "CoordSystemSidecar_init given_fields kwargs =
     JSON_subclass_init JSON_subclass_attr CoordSystem_DEFAULTS given_fields kwargs"

definition Ieeg_DEFAULTS :: pydict where
  "Ieeg_DEFAULTS =
     [(''TaskName'', PStr ''clinical''), (''PowerLineFrequency'', PInt 60),
      (''SamplingFrequency'', PStr ''n/a''), (''SoftwareFilters'', PStr ''n/a''),
      (''iEEGReference'', PStr ''unknown''), (''iEEGGround'', PStr ''unknown''),
      (''RecordingType'', PStr ''discontinuous''), (''Manufacturer'', PStr ''Natus''),
      (''ManufacturersModelName'', PStr ''Quantum''), (''InstitutionName'', PStr ''Penn Medicine''),
      (''ElectrodeManufacturer'', PStr ''AD-TECH'')]"

definition IeegSidecar_init :: "pydict \<Rightarrow> pydict \<Rightarrow> sidecar constructed" where
  "IeegSidecar_init given_fields kwargs =
     JSON_subclass_init JSON_subclass_attr Ieeg_DEFAULTS given_fields kwargs"

definition EEG_DEFAULTS :: pydict where
  "EEG_DEFAULTS =
     [(''TaskName'', PStr ''default_task''), (''EEGReference'', PStr ''Cz''),
      (''SamplingFrequency'', PFloat 256 0), (''PowerLineFrequency'', PInt 60),
      (''SoftwareFilters'', PStr ''n/a''), (''Manufacturer'', PStr ''Unknown''),
      (''ManufacturersModelName'', PStr ''Unknown''), (''EEGGround'', PStr ''n/a''),
      (''RecordingType'', PStr ''continuous''), (''HeadCircumference'', PStr ''n/a''),
      (''ElectricalStimulation'', PBool False),
      (''Description'', PStr ''Automatically generated EEG sidecar file.'')]"

definition EEGSidecar_init :: "pydict \<Rightarrow> pydict \<Rightarrow> sidecar constructed" where
  "EEGSidecar_init given_fields kwargs =
     JSON_subclass_init JSON_subclass_attr EEG_DEFAULTS given_fields kwargs"

definition Participants_DEFAULTS :: pydict where
  "Participants_DEFAULTS =
     [(''participant_id'', PDict [(''Description'', PStr ''Unique participant identifier''),
                                  (''Units'', PStr ''string'')]),
      (''species'', PDict [(''Description'', PStr ''Species of the participant''),
                           (''Units'', PStr ''Homo sapiens'')]),
      (''population'', PDict [(''Description'', PStr ''Adult or pediatric''),
                              (''Levels'', PDict [(''A'', PStr ''adult''), (''P'', PStr ''pediatric'')])]),
      (''sex'', PDict [(''Description'', PStr ''Biological sex of the participant''),
                       (''Levels'', PDict [(''M'', PStr ''male''), (''F'', PStr ''female'')])])]"

definition ParticipantsSidecar_init :: "pydict \<Rightarrow> pydict \<Rightarrow> sidecar constructed" where
  "ParticipantsSidecar_init given_fields kwargs =
     JSON_subclass_init JSON_subclass_attr Participants_DEFAULTS given_fields kwargs"

text \<open>
  The constructor that the four TSV sidecar classes share, for the class and its
  \<open>ROW_DEFAULTS\<close>. A keyword named \<open>self\<close> or \<open>rows\<close> is a second value for that parameter;
  the parent is called with \<open>fields={}\<close> and the keywords; every row is then merged with
  \<open>self.ROW_DEFAULTS\<close>, which is the value of a \<open>ROW_DEFAULTS\<close> keyword when there is one
  (unpacking a value that is not a dictionary raises \<open>TypeError\<close>). \<open>prints_defaults\<close> tells
  whether the closing log line reads \<open>self.ROW_DEFAULTS.keys()\<close>, as that of the channels
  sidecar does.
\<close>

record tsv_sidecar = sidecar +
  rows :: "pydict list"

definition TSV_subclass_init ::
  "(string \<Rightarrow> attribute) \<Rightarrow> pydict \<Rightarrow> bool \<Rightarrow> pydict list \<Rightarrow> pydict \<Rightarrow> tsv_sidecar constructed" where
  "TSV_subclass_init class_attr ROW_DEFAULTS prints_defaults given_rows kwargs =
     (if ''self'' \<in> set (keys kwargs) \<or> ''rows'' \<in> set (keys kwargs) then Raises TypeError
      else case TSVSidecar_init class_attr [] kwargs of
             Raises e \<Rightarrow> Raises e
           | Instance base attrs \<Rightarrow>
               (case (case dict_get attrs ''ROW_DEFAULTS'' of Some v \<Rightarrow> v | None \<Rightarrow> PDict ROW_DEFAULTS) of
                  PDict row_defaults \<Rightarrow>
                    Instance \<lparr>paths = paths base, data = data base,
                              rows = map (\<lambda>row. dict_merge row_defaults row) given_rows\<rparr> attrs
                | _ \<Rightarrow>
                    if given_rows \<noteq> [] then Raises TypeError
                    else if prints_defaults then Raises AttributeError
                    else Instance \<lparr>paths = paths base, data = data base, rows = []\<rparr> attrs))"

definition add_row :: "pydict \<Rightarrow> tsv_sidecar \<Rightarrow> pydict \<Rightarrow> tsv_sidecar" where
  "add_row ROW_DEFAULTS self row =
     (let merged_row = dict_merge ROW_DEFAULTS row in self\<lparr>rows := rows self @ [merged_row]\<rparr>)"

definition Channels_ROW_DEFAULTS :: pydict where
  "Channels_ROW_DEFAULTS =
     [(''type'', PStr ''SEEG''), (''units'', PStr ''uV''), (''low_cutoff'', PStr ''n/a''),
      (''high_cutoff'', PStr ''n/a''), (''notch'', PStr ''n/a''), (''reference'', PStr ''unknown''),
      (''ground'', PStr ''unknown''), (''group'', PStr ''n/a''), (''sampling_frequency'', PStr ''n/a'')]"

definition Electrodes_ROW_DEFAULTS :: pydict where
  "Electrodes_ROW_DEFAULTS =
     [(''size'', PStr ''n/a''), (''material'', PStr ''n/a''), (''manufacturer'', PStr ''n/a''),
      (''group'', PStr ''n/a''), (''hemisphere'', PStr ''n/a'')]"

definition Events_ROW_DEFAULTS :: pydict where
  "Events_ROW_DEFAULTS = [(''duration'', PStr ''n/a''), (''trial_type'', PStr ''n/a'')]"

definition ParticipantsTSV_ROW_DEFAULTS :: pydict where
  "ParticipantsTSV_ROW_DEFAULTS =
     [(''species'', PStr ''Homo sapiens''), (''age'', PStr ''n/a''), (''population'', PStr ''n/a''),
      (''sex'', PStr ''n/a''), (''handedness'', PStr ''n/a'')]"

text \<open>Each TSV sidecar class adds \<open>ROW_DEFAULTS\<close> and \<open>add_row\<close>, the channels sidecar also
  \<open>COLUMN_ORDER\<close>.\<close>

definition TSV_subclass_attr :: "string \<Rightarrow> attribute" where
  "TSV_subclass_attr k =
     (if k \<in> set [''ROW_DEFAULTS'', ''add_row''] then Attribute else TSVSidecar_attr k)"

definition ChannelsSidecar_attr :: "string \<Rightarrow> attribute" where
  "ChannelsSidecar_attr k = (if k = ''COLUMN_ORDER'' then Attribute else TSV_subclass_attr k)"

definition ChannelsSidecar_init :: "pydict list \<Rightarrow> pydict \<Rightarrow> tsv_sidecar constructed" where
  "ChannelsSidecar_init given_rows kwargs =
     TSV_subclass_init ChannelsSidecar_attr Channels_ROW_DEFAULTS True given_rows kwargs"

definition ElectrodesSidecar_init :: "pydict list \<Rightarrow> pydict \<Rightarrow> tsv_sidecar constructed" where
  "ElectrodesSidecar_init given_rows kwargs =
     TSV_subclass_init TSV_subclass_attr Electrodes_ROW_DEFAULTS False given_rows kwargs"

definition EventsSidecar_init :: "pydict list \<Rightarrow> pydict \<Rightarrow> tsv_sidecar constructed" where
  "EventsSidecar_init given_rows kwargs =
     TSV_subclass_init TSV_subclass_attr Events_ROW_DEFAULTS False given_rows kwargs"

definition ParticipantsSideCarTSV_init :: "pydict list \<Rightarrow> pydict \<Rightarrow> tsv_sidecar constructed" where
  "ParticipantsSideCarTSV_init given_rows kwargs =
     TSV_subclass_init TSV_subclass_attr ParticipantsTSV_ROW_DEFAULTS False given_rows kwargs"

text \<open>The paths of a sidecar that was given no path keyword.\<close>

definition default_paths :: pydict where
  "default_paths = [(''bids_path'', PStr ''bids_root/''), (''input_dir'', PStr ''input/''),
                    (''output_dir'', PStr ''output/'')]"

section \<open>Sidecars: validation of the TSV types\<close>

text \<open>
  The messages of a validation report are kept as values: a list of field names is the sorted
  list the message prints, a row number is \<open>i + 1\<close>.
\<close>

datatype message =
    NotNonEmptyList
  | MissingRequired "string list"
  | MissingRecommended "string list"
  | ExtraFields "string list"
  | InconsistentColumns nat
  | NotNumeric nat string pyval

record report =
  errors :: "message list"
  warnings :: "message list"
  columns :: "string list option"

text \<open>What \<open>data\<close> is bound to in \<open>validate\<close> and \<open>save\<close>: a list of row dictionaries, or a
  dictionary (the base class's \<open>self.data\<close>).\<close>

datatype tsv_data = DataRows "pydict list" | DataFields pydict

text \<open>
  \<open>float(val)\<close>. A string is accepted when, stripped of surrounding whitespace (space,
  tab, line feed, vertical tab, form feed, carriage return), it is an
  optionally signed \<open>inf\<close>, \<open>infinity\<close> or \<open>nan\<close> (in any case) or a decimal number with an
  optional exponent, digits grouped by single underscores. An integer that rounds beyond the
  largest double raises \<open>OverflowError\<close>, which the validators do not catch.
\<close>

definition is_digit :: "char \<Rightarrow> bool" where
  "is_digit c = (48 \<le> (of_char c :: nat) \<and> (of_char c :: nat) \<le> 57)"

fun digitpart_rest :: "string \<Rightarrow> string" where
  "digitpart_rest [] = []"
| "digitpart_rest [c] = (if is_digit c then [] else [c])"
| "digitpart_rest (c # d # cs) =
     (if is_digit c then digitpart_rest (d # cs)
      else if c = CHR ''_'' \<and> is_digit d then digitpart_rest (d # cs)
      else c # d # cs)"

definition digitpart :: "string \<Rightarrow> string option" where
  "digitpart s = (case s of [] \<Rightarrow> None | c # cs \<Rightarrow> if is_digit c then Some (digitpart_rest cs) else None)"

definition number :: "string \<Rightarrow> string option" where
  "number s =
     (case digitpart s of
        Some r \<Rightarrow>
          (case r of
             [] \<Rightarrow> Some []
           | c # r' \<Rightarrow>
               if c = CHR ''.'' then (case digitpart r' of Some r'' \<Rightarrow> Some r'' | None \<Rightarrow> Some r')
               else Some r)
      | None \<Rightarrow>
          (case s of [] \<Rightarrow> None | c # r' \<Rightarrow> if c = CHR ''.'' then digitpart r' else None))"

definition exponent_ok :: "string \<Rightarrow> bool" where
  "exponent_ok r =
     (case r of
        [] \<Rightarrow> True
      | c # r' \<Rightarrow>
          if c = CHR ''e'' \<or> c = CHR ''E''
          then digitpart (case r' of [] \<Rightarrow> []
                          | s # t \<Rightarrow> if s = CHR ''+'' \<or> s = CHR ''-'' then t else r') = Some []
          else False)"

definition is_c_space :: "char \<Rightarrow> bool" where
  "is_c_space c = (of_char c \<in> set [9, 10, 11, 12, 13, 32 :: nat])"

definition float_syntax :: "string \<Rightarrow> bool" where
  "float_syntax s =
     (let t = rev (dropWhile is_c_space (rev (dropWhile is_c_space s)));
          u = (case t of [] \<Rightarrow> [] | c # cs \<Rightarrow> if c = CHR ''+'' \<or> c = CHR ''-'' then cs else t)
      in lower u \<in> set [''inf'', ''infinity'', ''nan'']
         \<or> (case number u of Some r \<Rightarrow> exponent_ok r | None \<Rightarrow> False))"

datatype float_outcome = FloatOk | FloatTypeError | FloatValueError | FloatOverflowError

fun float_of :: "pyval \<Rightarrow> float_outcome" where
  "float_of PNone = FloatTypeError"
| "float_of (PBool b) = FloatOk"
| "float_of (PInt i) = (if 2 ^ 1024 - 2 ^ 970 \<le> \<bar>i\<bar> then FloatOverflowError else FloatOk)"
| "float_of (PFloat m e) = FloatOk"
| "float_of (PStr s) = (if float_syntax s then FloatOk else FloatValueError)"
| "float_of (PList xs) = FloatTypeError"
| "float_of (PDict d) = FloatTypeError"

text \<open>
  The numeric check of one cell: \<open>val = row.get(field)\<close>; a value in
  \<open>(None, "n/a", "N/A")\<close> is skipped; \<open>TypeError\<close> and \<open>ValueError\<close> of \<open>float(val)\<close> are
  caught and add a message. Cells are checked in the order of the loops, and an uncaught
  exception ends the validation.
\<close>

definition numeric_cell :: "nat \<Rightarrow> string \<Rightarrow> pydict \<Rightarrow> py_error + message list" where
  "numeric_cell i field row =
     (case dict_get row field of
        None \<Rightarrow> Inr []
      | Some val \<Rightarrow>
          if val \<in> set [PNone, PStr ''n/a'', PStr ''N/A''] then Inr []
          else (case float_of val of
                  FloatOk \<Rightarrow> Inr []
                | FloatTypeError \<Rightarrow> Inr [NotNumeric (i + 1) field val]
                | FloatValueError \<Rightarrow> Inr [NotNumeric (i + 1) field val]
                | FloatOverflowError \<Rightarrow> Inl OverflowError))"

fun collect :: "(py_error + message list) list \<Rightarrow> py_error + message list" where
  "collect [] = Inr []"
| "collect (x # xs) =
     (case x of
        Inl e \<Rightarrow> Inl e
      | Inr ms \<Rightarrow> (case collect xs of Inl e \<Rightarrow> Inl e | Inr ms' \<Rightarrow> Inr (ms @ ms')))"

definition enumerate_rows :: "'a list \<Rightarrow> (nat \<times> 'a) list" where
  "enumerate_rows xs = zip [0..<length xs] xs"

definition all_fields_of :: "pydict list \<Rightarrow> string list" where
  "all_fields_of rws = remdups (concat (map keys rws))"

text \<open>\<open>sorted(set(a) - set(b))\<close>.\<close>

definition sorted_minus :: "string list \<Rightarrow> string list \<Rightarrow> string list" where
  "sorted_minus a b = sort (remdups (filter (\<lambda>x. x \<notin> set b) a))"

definition consistency_warnings :: "pydict list \<Rightarrow> string list \<Rightarrow> message list" where
  "consistency_warnings rws all_fields =
     map (\<lambda>(i, row). InconsistentColumns (i + 1))
       (filter (\<lambda>(i, row). set (keys row) \<noteq> set all_fields) (enumerate_rows rws))"

definition not_a_list :: "bool \<times> report" where
  "not_a_list = (False, \<lparr>errors = [NotNonEmptyList], warnings = [], columns = None\<rparr>)"

text \<open>
  \<open>ChannelsSidecar.validate\<close>: the numeric loop runs field by field and appends to the
  warnings.
\<close>

definition Channels_REQUIRED_FIELDS :: "string list" where
  "Channels_REQUIRED_FIELDS =
     [''name'', ''type'', ''units'', ''sampling_frequency'', ''low_cutoff'', ''high_cutoff'',
      ''notch'', ''reference'', ''group'']"

definition Channels_RECOMMENDED_FIELDS :: "string list" where
  "Channels_RECOMMENDED_FIELDS = [''ground'']"

definition Channels_OPTIONAL_FIELDS :: "string list" where
  "Channels_OPTIONAL_FIELDS = [''description'']"

definition Channels_COLUMN_ORDER :: "string list" where
  "Channels_COLUMN_ORDER =
     [''name'', ''type'', ''units'', ''low_cutoff'', ''high_cutoff'', ''reference'', ''ground'',
      ''group'', ''sampling_frequency'', ''notch'']"

definition Channels_numeric_fields :: "string list" where
  "Channels_numeric_fields = [''low_cutoff'', ''high_cutoff'', ''sampling_frequency'', ''notch'']"

definition ChannelsSidecar_validate :: "tsv_sidecar \<Rightarrow> tsv_data option \<Rightarrow> py_error + bool \<times> report" where
  "ChannelsSidecar_validate self data_arg =
     (case (case data_arg of None \<Rightarrow> DataRows (rows self) | Some d \<Rightarrow> d) of
        DataFields d \<Rightarrow> Inr not_a_list
      | DataRows [] \<Rightarrow> Inr not_a_list
      | DataRows (r # rs) \<Rightarrow>
          let rws = r # rs;
              all_fields = all_fields_of rws;
              missing_required = sorted_minus Channels_REQUIRED_FIELDS all_fields;
              extra_fields = sorted_minus all_fields
                (Channels_REQUIRED_FIELDS @ Channels_RECOMMENDED_FIELDS @ Channels_OPTIONAL_FIELDS);
              errs = (if missing_required \<noteq> [] then [MissingRequired missing_required] else []);
              warns = (if extra_fields \<noteq> [] then [ExtraFields extra_fields] else [])
                      @ consistency_warnings rws all_fields
          in case collect (concat (map (\<lambda>field. map (\<lambda>(i, row). numeric_cell i field row)
                                                   (enumerate_rows rws))
                                     Channels_numeric_fields)) of
               Inl e \<Rightarrow> Inl e
             | Inr numeric \<Rightarrow>
                 Inr (errs = [],
                      \<lparr>errors = errs, warnings = warns @ numeric, columns = Some (sort all_fields)\<rparr>))"

text \<open>
  \<open>ElectrodesSidecar.validate\<close>: the numeric loop runs row by row and appends to the errors.
\<close>

definition Electrodes_REQUIRED_FIELDS :: "string list" where
  "Electrodes_REQUIRED_FIELDS = [''name'', ''x'', ''y'', ''z'', ''size'']"

definition Electrodes_RECOMMENDED_FIELDS :: "string list" where
  "Electrodes_RECOMMENDED_FIELDS = [''material'', ''manufacturer'', ''group'', ''hemisphere'']"

definition Electrodes_OPTIONAL_FIELDS :: "string list" where
  "Electrodes_OPTIONAL_FIELDS = [''type'', ''impedance'', ''dimension'', ''roi'']"

definition Electrodes_numeric_fields :: "string list" where
  "Electrodes_numeric_fields = [''x'', ''y'', ''z'', ''size'', ''impedance'']"

definition ElectrodesSidecar_validate :: "tsv_sidecar \<Rightarrow> tsv_data option \<Rightarrow> py_error + bool \<times> report" where
  "ElectrodesSidecar_validate self data_arg =
     (case (case data_arg of None \<Rightarrow> DataRows (rows self) | Some d \<Rightarrow> d) of
        DataFields d \<Rightarrow> Inr not_a_list
      | DataRows [] \<Rightarrow> Inr not_a_list
      | DataRows (r # rs) \<Rightarrow>
          let rws = r # rs;
              all_fields = all_fields_of rws;
              missing_required = sorted_minus Electrodes_REQUIRED_FIELDS all_fields;
              missing_recommended = sorted_minus Electrodes_RECOMMENDED_FIELDS all_fields;
              extra_fields = sorted_minus all_fields
                (Electrodes_REQUIRED_FIELDS @ Electrodes_RECOMMENDED_FIELDS @ Electrodes_OPTIONAL_FIELDS);
              errs = (if missing_required \<noteq> [] then [MissingRequired missing_required] else []);
              warns = (if missing_recommended \<noteq> [] then [MissingRecommended missing_recommended] else [])
                      @ (if extra_fields \<noteq> [] then [ExtraFields extra_fields] else [])
                      @ consistency_warnings rws all_fields
          in case collect (concat (map (\<lambda>(i, row). map (\<lambda>field. numeric_cell i field row)
                                                      Electrodes_numeric_fields)
                                     (enumerate_rows rws))) of
               Inl e \<Rightarrow> Inl e
             | Inr numeric \<Rightarrow>
                 Inr (errs @ numeric = [],
                      \<lparr>errors = errs @ numeric, warnings = warns, columns = Some (sort all_fields)\<rparr>))"

text \<open>
  \<open>EventsSidecar.validate\<close>: no check of recommended fields; the numeric loop runs row by
  row and appends to the errors.
\<close>

definition Events_REQUIRED_FIELDS :: "string list" where
  "Events_REQUIRED_FIELDS = [''onset'', ''duration'']"

definition Events_RECOMMENDED_FIELDS :: "string list" where
  "Events_RECOMMENDED_FIELDS = []"

definition Events_OPTIONAL_FIELDS :: "string list" where
  "Events_OPTIONAL_FIELDS =
     [''trial_type'', ''response_time'', ''HED'', ''stim_file'', ''channel'', ''Description'',
      ''Parent'', ''Annotated'', ''Annotator'', ''Type'', ''Layer'']"

definition Events_numeric_fields :: "string list" where
  "Events_numeric_fields = [''onset'', ''duration'', ''response_time'']"

definition EventsSidecar_validate :: "tsv_sidecar \<Rightarrow> tsv_data option \<Rightarrow> py_error + bool \<times> report" where
  "EventsSidecar_validate self data_arg =
     (case (case data_arg of None \<Rightarrow> DataRows (rows self) | Some d \<Rightarrow> d) of
        DataFields d \<Rightarrow> Inr not_a_list
      | DataRows [] \<Rightarrow> Inr not_a_list
      | DataRows (r # rs) \<Rightarrow>
          let rws = r # rs;
              all_fields = all_fields_of rws;
              missing_required = sorted_minus Events_REQUIRED_FIELDS all_fields;
              extra_fields = sorted_minus all_fields
                (Events_REQUIRED_FIELDS @ Events_RECOMMENDED_FIELDS @ Events_OPTIONAL_FIELDS);
              errs = (if missing_required \<noteq> [] then [MissingRequired missing_required] else []);
              warns = (if extra_fields \<noteq> [] then [ExtraFields extra_fields] else [])
                      @ consistency_warnings rws all_fields
          in case collect (concat (map (\<lambda>(i, row). map (\<lambda>field. numeric_cell i field row)
                                                      Events_numeric_fields)
                                     (enumerate_rows rws))) of
               Inl e \<Rightarrow> Inl e
             | Inr numeric \<Rightarrow>
                 Inr (errs @ numeric = [],
                      \<lparr>errors = errs @ numeric, warnings = warns, columns = Some (sort all_fields)\<rparr>))"

text \<open>No cell of the numeric columns holds an integer too large for a double.\<close>

definition no_overflow :: "string list \<Rightarrow> pydict list \<Rightarrow> bool" where
  "no_overflow cols rws =
     list_all (\<lambda>row. list_all (\<lambda>field. case dict_get row field of
                                          None \<Rightarrow> True
                                        | Some val \<Rightarrow> float_of val \<noteq> FloatOverflowError) cols) rws"

text \<open>Sample rows, each with one value that is not a number.\<close>

definition sample_channel_row :: pydict where
  "sample_channel_row =
     [(''name'', PStr ''LA01''), (''type'', PStr ''SEEG''), (''high_cutoff'', PStr ''fast''),
      (''reference'', PStr ''LE10''), (''ground'', PStr ''RF6''), (''group'', PStr ''LA''),
      (''sampling_frequency'', PInt 256)]"

definition sample_electrode_row :: pydict where
  "sample_electrode_row =
     [(''name'', PStr ''LA01''), (''x'', PStr ''left''), (''y'', PFloat 3 (- 1)), (''z'', PInt 4)]"

definition sample_event_row :: pydict where
  "sample_event_row = [(''onset'', PStr ''start'')]"

section \<open>Sidecars: the coordinate-system validator\<close>

datatype log_entry =
    LogError_Schema
  | LogWarning_MissingRecommended "string list"
  | LogWarning_ExtraFields "string list"
  | LogInfo_ValidationPassed
  | LogWarning_ValidationFailed nat
  | LogDebug_WroteTSV string
  | LogInfo_Saved string

text \<open>
  \<open>CoordSystemSidecar.validate\<close>. What it logs is returned next to its result.
\<close>

definition CoordSystem_REQUIRED_FIELDS :: "string list" where
  "CoordSystem_REQUIRED_FIELDS = [''iEEGCoordinateSystem'', ''iEEGCoordinateUnits'']"

definition CoordSystem_RECOMMENDED_FIELDS :: "string list" where
  "CoordSystem_RECOMMENDED_FIELDS =
     [''iEEGCoordinateSystemDescription'', ''iEEGCoordinateProcessingDescription'',
      ''iEEGCoordinateProcessingReference'']"

definition CoordSystem_OPTIONAL_FIELDS :: "string list" where
  "CoordSystem_OPTIONAL_FIELDS = [''IntendedFor'']"

definition is_string :: "pyval \<Rightarrow> bool" where
  "is_string v = (case v of PStr s \<Rightarrow> True | _ \<Rightarrow> False)"

definition is_string_array :: "pyval \<Rightarrow> bool" where
  "is_string_array v = (case v of PList xs \<Rightarrow> list_all is_string xs | _ \<Rightarrow> False)"

text \<open>
  The number of errors the JSON Schema validator reports for \<open>SCHEMA\<close>: one for each
  required property that is missing, one for each declared string property that is present
  and not a string, and one for an \<open>IntendedFor\<close> that is neither a string nor an array of
  strings. Additional properties are allowed.
\<close>

definition CoordSystem_schema_errors :: "pydict \<Rightarrow> nat" where
  "CoordSystem_schema_errors d =
     length (filter (\<lambda>f. f \<notin> set (keys d)) [''iEEGCoordinateSystem'', ''iEEGCoordinateUnits''])
     + length (filter (\<lambda>f. case dict_get d f of None \<Rightarrow> False | Some v \<Rightarrow> \<not> is_string v)
                 [''iEEGCoordinateSystem'', ''iEEGCoordinateUnits'', ''iEEGCoordinateSystemDescription'',
                  ''iEEGCoordinateProcessingDescription'', ''iEEGCoordinateProcessingReference''])
     + (case dict_get d ''IntendedFor'' of
          None \<Rightarrow> 0
        | Some v \<Rightarrow> if is_string v \<or> is_string_array v then 0 else 1)"

definition CoordSystemSidecar_validate :: "sidecar \<Rightarrow> (py_error + bool) \<times> log_entry list" where
  "CoordSystemSidecar_validate self =
     (let n = CoordSystem_schema_errors (data self)
      in if n \<noteq> 0 then (Inl (ValueError_Schema n), replicate n LogError_Schema)
         else
           let missing_required = sorted_minus CoordSystem_REQUIRED_FIELDS (keys (data self));
               missing_recommended = sorted_minus CoordSystem_RECOMMENDED_FIELDS (keys (data self));
               extras = sorted_minus (keys (data self))
                 (CoordSystem_REQUIRED_FIELDS @ CoordSystem_RECOMMENDED_FIELDS @ CoordSystem_OPTIONAL_FIELDS)
           in case (case dict_get (data self) ''iEEGCoordinateSystem'' of
                      None \<Rightarrow> Inr (lower [])
                    | Some (PStr s) \<Rightarrow> Inr (lower s)
                    | Some _ \<Rightarrow> Inl AttributeError) of
                Inl e \<Rightarrow> (Inl e, [])
              | Inr system \<Rightarrow>
                  let missing_required =
                        (if system = ''other'' \<and> ''iEEGCoordinateSystemDescription'' \<notin> set (keys (data self))
                         then sort (remdups (missing_required @ [''iEEGCoordinateSystemDescription'']))
                         else missing_required)
                  in if missing_required \<noteq> [] then (Inl (ValueError_MissingRequired missing_required), [])
                     else (Inr True,
                           (if missing_recommended \<noteq> []
                            then [LogWarning_MissingRecommended missing_recommended] else [])
                           @ (if extras \<noteq> [] then [LogWarning_ExtraFields extras] else [])
                           @ [LogInfo_ValidationPassed]))"

section \<open>Sidecars: saving\<close>

text \<open>
  The files written and the log. A TSV file is kept as its header and its records, a record
  being the cell values in header order; the csv dialect's rendering of a cell is not modelled.
  The file system accepts every operation except \<open>os.makedirs('')\<close>.
\<close>

datatype file_content = JSONFile pydict | TSVFile "string list" "pyval list list"

record world =
  files :: "string \<rightharpoonup> file_content"
  logged :: "log_entry list"

definition os_path_join :: "string \<Rightarrow> string \<Rightarrow> string" where
  "os_path_join a b =
     (if startswith b ''/'' then b
      else if a = [] \<or> endswith a ''/'' then a @ b
      else a @ ''/'' @ b)"

definition os_path_dirname :: "string \<Rightarrow> string" where
  "os_path_dirname p =
     (let i = nat (rfind CHR ''/'' p + 1); head = take i p
      in if head \<noteq> [] \<and> head \<noteq> replicate (length head) CHR ''/''
         then rev (dropWhile (\<lambda>c. c = CHR ''/'') (rev head))
         else head)"

definition makedirs :: "string \<Rightarrow> py_error option" where
  "makedirs name = (if name = [] then Some FileNotFoundError else None)"

text \<open>\<open>csv.DictWriter\<close> with \<open>restval=''\<close> and \<open>extrasaction='raise'\<close>; the records before a
  failing row are already in the file.\<close>

definition cells :: "string list \<Rightarrow> pydict \<Rightarrow> pyval list" where
  "cells fieldnames rowdict =
     map (\<lambda>key. case dict_get rowdict key of None \<Rightarrow> PStr [] | Some v \<Rightarrow> v) fieldnames"

definition dict_to_list :: "string list \<Rightarrow> pydict \<Rightarrow> py_error + pyval list" where
  "dict_to_list fieldnames rowdict =
     (if \<not> list_all (\<lambda>k. k \<in> set fieldnames) (keys rowdict) then Inl ValueError_ExtraFields
      else Inr (cells fieldnames rowdict))"

fun writerows :: "string list \<Rightarrow> pydict list \<Rightarrow> pyval list list \<times> py_error option" where
  "writerows fieldnames [] = ([], None)"
| "writerows fieldnames (rowdict # rest) =
     (case dict_to_list fieldnames rowdict of
        Inl e \<Rightarrow> ([], Some e)
      | Inr line \<Rightarrow> (case writerows fieldnames rest of (written, e) \<Rightarrow> (line # written, e)))"

definition TSVSidecar_write_data :: "string \<Rightarrow> tsv_data \<Rightarrow> world \<Rightarrow> py_error option \<times> world" where
  "TSVSidecar_write_data file_path d w =
     (case d of
        DataFields [] \<Rightarrow> (Some ValueError_NoData, w)
      | DataFields (kv # kvs) \<Rightarrow> (Some KeyError, w)
      | DataRows [] \<Rightarrow> (Some ValueError_NoData, w)
      | DataRows (r # rs) \<Rightarrow>
          let fieldnames = keys r
          in case writerows fieldnames (r # rs) of
               (written, e) \<Rightarrow>
                 let w1 = w\<lparr>files := (files w)(file_path \<mapsto> TSVFile fieldnames written)\<rparr>
                 in (case e of
                       Some err \<Rightarrow> (Some err, w1)
                     | None \<Rightarrow> (None, w1\<lparr>logged := logged w1 @ [LogDebug_WroteTSV file_path]\<rparr>)))"

definition JSONSidecar_write_data :: "string \<Rightarrow> pydict \<Rightarrow> world \<Rightarrow> py_error option \<times> world" where
  "JSONSidecar_write_data file_path d w = (None, w\<lparr>files := (files w)(file_path \<mapsto> JSONFile d)\<rparr>)"

record 'd save_kwargs =
  sv_data :: "'d option"
  sv_validate :: bool
  sv_output_dir :: "string option"

text \<open>The validation step that \<open>Sidecar.save\<close> and \<open>ChannelsSidecar.save\<close> both open with:
  a failed validation is logged and nothing else.\<close>

definition save_validation ::
  "('d \<Rightarrow> py_error + bool \<times> report) \<Rightarrow> 'd \<Rightarrow> bool \<Rightarrow> world \<Rightarrow> py_error + world" where
  "save_validation validate d requested w =
     (if requested
      then (case validate d of
              Inl e \<Rightarrow> Inl e
            | Inr (ok, rep) \<Rightarrow>
                Inr (if \<not> ok
                     then w\<lparr>logged := logged w @ [LogWarning_ValidationFailed (length (errors rep))]\<rparr>
                     else w))
      else Inr w)"

definition save_path :: "'d save_kwargs \<Rightarrow> string \<Rightarrow> string" where
  "save_path kwargs filename =
     (let output_dir = (case sv_output_dir kwargs of
                          None \<Rightarrow> ''output/json''
                        | Some x \<Rightarrow> if x = [] then ''output/json'' else x)
      in os_path_join output_dir filename)"

text \<open>\<open>Sidecar.save\<close>, for the class's \<open>validate\<close> called with one positional argument, its
  \<open>write_data\<close>, its \<open>filename\<close> and its \<open>self.data\<close>.\<close>

definition Sidecar_save ::
  "('d \<Rightarrow> py_error + bool \<times> report) \<Rightarrow> (string \<Rightarrow> 'd \<Rightarrow> world \<Rightarrow> py_error option \<times> world)
   \<Rightarrow> string \<Rightarrow> 'd \<Rightarrow> 'd save_kwargs \<Rightarrow> world \<Rightarrow> (py_error + string) \<times> world" where
  "Sidecar_save validate write_data filename self_data kwargs w =
     (let d = (case sv_data kwargs of None \<Rightarrow> self_data | Some x \<Rightarrow> x)
      in case save_validation validate d (sv_validate kwargs) w of
           Inl e \<Rightarrow> (Inl e, w)
         | Inr w1 \<Rightarrow>
             let file_path = save_path kwargs filename
             in case makedirs (os_path_dirname file_path) of
                  Some e \<Rightarrow> (Inl e, w1)
                | None \<Rightarrow>
                    (case write_data file_path d w1 of
                       (Some e, w2) \<Rightarrow> (Inl e, w2)
                     | (None, w2) \<Rightarrow> (Inr file_path, w2\<lparr>logged := logged w2 @ [LogInfo_Saved file_path]\<rparr>)))"

text \<open>The \<open>validate\<close> of a JSON sidecar class takes no argument besides \<open>self\<close>, so the call
  \<open>self.validate(data)\<close> of \<open>save\<close> raises \<open>TypeError\<close>.\<close>

definition JSONSidecar_save :: "string \<Rightarrow> sidecar \<Rightarrow> pydict save_kwargs \<Rightarrow> world \<Rightarrow> (py_error + string) \<times> world" where
  "JSONSidecar_save filename self kwargs w =
     Sidecar_save (\<lambda>d. Inl TypeError) JSONSidecar_write_data filename (data self) kwargs w"

text \<open>The electrodes and events classes inherit \<open>save\<close> and \<open>write_data\<close>; \<open>self.data\<close> is
  the dictionary of the base constructor, not the rows.\<close>

definition ElectrodesSidecar_save :: "tsv_sidecar \<Rightarrow> tsv_data save_kwargs \<Rightarrow> world \<Rightarrow> (py_error + string) \<times> world" where
  "ElectrodesSidecar_save self kwargs w =
     Sidecar_save (\<lambda>d. ElectrodesSidecar_validate self (Some d)) TSVSidecar_write_data
       ''electrodes.tsv'' (DataFields (data self)) kwargs w"

definition EventsSidecar_save :: "tsv_sidecar \<Rightarrow> tsv_data save_kwargs \<Rightarrow> world \<Rightarrow> (py_error + string) \<times> world" where
  "EventsSidecar_save self kwargs w =
     Sidecar_save (\<lambda>d. EventsSidecar_validate self (Some d)) TSVSidecar_write_data
       ''events.tsv'' (DataFields (data self)) kwargs w"

text \<open>\<open>ChannelsSidecar.save\<close>, which writes the file itself.\<close>

definition Channels_output_path :: "string option \<Rightarrow> 'd save_kwargs \<Rightarrow> string" where
  "Channels_output_path output_path kwargs =
     (case output_path of
        Some p \<Rightarrow> p
      | None \<Rightarrow>
          let output_dir = (case sv_output_dir kwargs of None \<Rightarrow> ''output/tsv'' | Some x \<Rightarrow> x)
          in os_path_join output_dir ''channels.tsv'')"

definition Channels_fieldnames :: "pydict list \<Rightarrow> string list" where
  "Channels_fieldnames d =
     (if d \<noteq> []
      then (let all_cols = all_fields_of d;
                extra_cols = sorted_minus all_cols Channels_COLUMN_ORDER
            in filter (\<lambda>c. c \<in> set all_cols) Channels_COLUMN_ORDER @ extra_cols)
      else Channels_COLUMN_ORDER)"

definition ChannelsSidecar_save ::
  "tsv_sidecar \<Rightarrow> string option \<Rightarrow> (pydict list) save_kwargs \<Rightarrow> world \<Rightarrow> (py_error + string) \<times> world" where
  "ChannelsSidecar_save self output_path kwargs w =
     (let d = (case sv_data kwargs of None \<Rightarrow> rows self | Some x \<Rightarrow> x)
      in case save_validation (\<lambda>d. ChannelsSidecar_validate self (Some (DataRows d))) d
                (sv_validate kwargs) w of
           Inl e \<Rightarrow> (Inl e, w)
         | Inr w1 \<Rightarrow>
             let output_path = Channels_output_path output_path kwargs
             in case makedirs (os_path_dirname output_path) of
                  Some e \<Rightarrow> (Inl e, w1)
                | None \<Rightarrow>
                    let fieldnames = Channels_fieldnames d
                    in case writerows fieldnames d of
                         (written, e) \<Rightarrow>
                           let w2 = w1\<lparr>files := (files w1)(output_path \<mapsto> TSVFile fieldnames written)\<rparr>
                           in (case e of
                                 Some err \<Rightarrow> (Inl err, w2)
                               | None \<Rightarrow>
                                   (Inr output_path,
                                    w2\<lparr>logged := logged w2 @ [LogInfo_Saved output_path]\<rparr>)))"

text \<open>An empty file system with an empty log, and \<open>save\<close> called with no keyword.\<close>

definition world0 :: world where
  "world0 = \<lparr>files = Map.empty, logged = []\<rparr>"

definition save_defaults :: "'d save_kwargs" where
  "save_defaults = \<lparr>sv_data = None, sv_validate = False, sv_output_dir = None\<rparr>"

section \<open>Properties\<close>

lemma backtrack_hit:
  "1 \<le> n \<Longrightarrow> n \<le> m \<Longrightarrow> g n = Some v \<Longrightarrow> (\<forall>k. n < k \<and> k \<le> m \<longrightarrow> g k = None)
   \<Longrightarrow> backtrack g m = Some v"
proof (induction m)
  case 0
  then show ?case by simp
next
  case (Suc m)
  show ?case
  proof (cases "n = Suc m")
    case True
    with Suc.prems show ?thesis by simp
  next
    case False
    with Suc.prems have "n \<le> m" and "g (Suc m) = None" by auto
    with Suc show ?thesis by simp
  qed
qed

lemma backtrack_miss: "(\<forall>k. 1 \<le> k \<and> k \<le> m \<longrightarrow> g k = None) \<Longrightarrow> backtrack g m = None"
  by (induction m) auto

lemma split_on_absent: "d \<notin> set s \<Longrightarrow> split_on d s = [s]"
  by (induction s) auto

lemma rfind_last:
  assumes "c \<in> set s"
  shows "\<exists>u t. s = u @ c # t \<and> c \<notin> set t \<and> rfind c s = int (length u)"
proof -
  let ?t = "takeWhile (\<lambda>x. x \<noteq> c) (rev s)"
  let ?u = "dropWhile (\<lambda>x. x \<noteq> c) (rev s)"
  from assms have "?u \<noteq> []" by simp
  then obtain w where u: "?u = c # w"
    using hd_dropWhile [of "\<lambda>x. x \<noteq> c" "rev s"] by (cases ?u) auto
  have "rev s = ?t @ c # w" using u takeWhile_dropWhile_id [of "\<lambda>x. x \<noteq> c" "rev s"] by simp
  then have s: "s = rev w @ c # rev ?t" by (simp add: rev_swap)
  have notin: "c \<notin> set (rev ?t)" using set_takeWhileD [of c "\<lambda>x. x \<noteq> c" "rev s"] by auto
  have "length s = length w + 1 + length ?t" using arg_cong [OF s, of length] by simp
  then have "rfind c s = int (length (rev w))" using assms by (simp add: rfind_def)
  with s notin show ?thesis by blast
qed

lemma rfind_absent: "c \<notin> set s \<Longrightarrow> rfind c s = - 1"
  by (simp add: rfind_def)

lemma path_name_component:
  assumes "CHR ''/'' \<notin> set f" "f \<noteq> []" "f \<noteq> ''.''"
  shows "path_name f = f"
  using assms by (simp add: path_name_def path_parts_def split_on_absent)

lemma match_ext_no_dot: "CHR ''.'' \<notin> set r \<Longrightarrow> match_ext r = None"
  by (cases r) (auto simp: match_ext_def)

lemma match_tail_no_dot: "CHR ''.'' \<notin> set r \<Longrightarrow> match_tail r = None"
proof -
  assume "CHR ''.'' \<notin> set r"
  then have "CHR ''.'' \<notin> set (drop 4 r)" by (meson in_set_dropD)
  then show ?thesis by (simp add: match_tail_def match_ext_no_dot)
qed

lemma takeWhile_all_length: "\<forall>x\<in>set t. P x \<Longrightarrow> length (takeWhile P t) = length t"
  by (induction t) auto

lemma match_ext_whole:
  assumes "t \<noteq> []" "CHR ''.'' \<notin> set t"
  shows "match_ext (CHR ''.'' # t) = Some (CHR ''.'' # t)"
proof -
  have len: "length (takeWhile (\<lambda>x. x \<noteq> CHR ''.'') t) = length t"
    using assms(2) by (intro takeWhile_all_length) auto
  have "backtrack (\<lambda>k. if at_end (drop k t) then Some (CHR ''.'' # take k t) else None) (length t)
        = Some (CHR ''.'' # t)"
    using assms(1) by (intro backtrack_hit [where n = "length t"]) (auto simp: at_end_def Suc_le_eq)
  then show ?thesis by (simp add: match_ext_def len)
qed

lemma drop_past: "length xs \<le> j \<Longrightarrow> drop j (xs @ t) = drop (j - length xs) t"
  by simp

lemma takeWhile_prefix_length: "\<forall>x\<in>set u. P x \<Longrightarrow> length u \<le> length (takeWhile P (u @ v))"
  by (simp add: takeWhile_append2)

lemma match_tail_inside:
  assumes "1 \<le> j" "CHR ''.'' \<notin> set t"
  shows "match_tail (drop j ('' (1).'' @ t)) = None"
proof -
  consider "j = 1" | "j = 2" | "j = 3" | "j = 4" | "5 \<le> j" using assms(1) by linarith
  then show ?thesis
  proof cases
    case 5
    then have "drop j ('' (1).'' @ t) = drop (j - length '' (1).'') t"
      by (intro drop_past) simp
    moreover have "CHR ''.'' \<notin> set (drop (j - length '' (1).'') t)"
      using assms(2) by (meson in_set_dropD)
    ultimately show ?thesis by (metis match_tail_no_dot)
  qed (simp_all add: match_tail_def)
qed

lemma match_duplicate_split:
  assumes "u \<noteq> []" "newline \<notin> set u" "t \<noteq> []" "CHR ''.'' \<notin> set t"
  shows "match_duplicate (u @ '' (1)'' @ CHR ''.'' # t) = Some (u, CHR ''.'' # t)"
proof -
  let ?s = "u @ '' (1)'' @ CHR ''.'' # t"
  let ?m = "length (takeWhile (\<lambda>x. x \<noteq> newline) ?s)"
  let ?g = "\<lambda>n. map_option (\<lambda>g2. (take n ?s, g2)) (match_tail (drop n ?s))"
  have m: "length u \<le> ?m"
    using assms(2) by (intro takeWhile_prefix_length) auto
  have hit: "?g (length u) = Some (u, CHR ''.'' # t)"
    using assms(3,4) by (simp add: match_tail_def match_ext_whole)
  have miss: "?g k = None" if "length u < k" for k
  proof -
    have "drop k ?s = drop (k - length u) ('' (1).'' @ t)" using that by simp
    moreover have "1 \<le> k - length u" using that by simp
    ultimately show ?thesis using match_tail_inside [OF _ assms(4)] by simp
  qed
  have "backtrack ?g ?m = Some (u, CHR ''.'' # t)"
    using assms(1) m hit miss by (intro backtrack_hit [where n = "length u"]) (auto simp: Suc_le_eq)
  then show ?thesis unfolding match_duplicate_def .
qed

lemma match_duplicate_dotless_tail:
  assumes "CHR ''.'' \<notin> set (tl s)"
  shows "match_duplicate s = None"
proof -
  have "match_tail (drop k s) = None" if "1 \<le> k" for k
  proof -
    have "drop k s = drop (k - 1) (tl s)" using that by (cases s) (auto simp: drop_Cons')
    then have "CHR ''.'' \<notin> set (drop k s)" using assms by (metis in_set_dropD)
    then show ?thesis by (rule match_tail_no_dot)
  qed
  then show ?thesis unfolding match_duplicate_def by (intro backtrack_miss) simp
qed

lemma suffix_cases:
  assumes "path_suffix f \<noteq> []"
  shows "\<exists>u t. path_name f = u @ CHR ''.'' # t \<and> u \<noteq> [] \<and> t \<noteq> [] \<and> CHR ''.'' \<notin> set t
           \<and> path_stem f = u \<and> path_suffix f = CHR ''.'' # t"
proof -
  let ?n = "path_name f"
  have dot: "CHR ''.'' \<in> set ?n"
  proof (rule ccontr)
    assume "CHR ''.'' \<notin> set ?n"
    then have "rfind CHR ''.'' ?n = - 1" by (rule rfind_absent)
    with assms show False by (simp add: path_suffix_def Let_def)
  qed
  then obtain u t where ut: "?n = u @ CHR ''.'' # t" "CHR ''.'' \<notin> set t"
      "rfind CHR ''.'' ?n = int (length u)"
    using rfind_last by blast
  have rng: "0 < int (length u) \<and> int (length u) < int (length ?n) - 1"
    using assms ut(3) by (auto simp: path_suffix_def Let_def split: if_splits)
  then have "u \<noteq> []" by auto
  moreover have "t \<noteq> []" using rng ut(1) by auto
  moreover have "path_stem f = u" using rng ut by (simp add: path_stem_def Let_def)
  moreover have "path_suffix f = CHR ''.'' # t" using rng ut by (simp add: path_suffix_def Let_def)
  ultimately show ?thesis using ut by blast
qed

text \<open>
  Claim C10, as the code has it. For a file name that is a single path component, whose
  \<open>pathlib\<close> suffix is not empty (its last dot is neither its first nor its last character)
  and whose stem is not made of dots only and holds no line feed,
  \<open>_get_original_name (_get_duplicate_name filename)\<close> is \<open>filename\<close>. For a file name whose final component has no dot after its first character
  (no dot at all, or a leading dot only, as in \<open>.bidsignore\<close>) the duplicate name is the
  name followed by \<open> (1)\<close>, the reverse pattern does not match it, and the round trip returns
  that duplicate name unchanged.
\<close>

theorem duplicate_name_roundtrip:
  "(CHR ''/'' \<notin> set filename \<and> path_suffix filename \<noteq> []
      \<and> \<not> list_all (\<lambda>c. c = CHR ''.'') (path_stem filename) \<and> newline \<notin> set (path_stem filename)
      \<longrightarrow> get_original_name (get_duplicate_name filename) = filename)
   \<and> (CHR ''.'' \<notin> set (tl (path_name filename))
      \<longrightarrow> get_duplicate_name filename = path_name filename @ '' (1)''
          \<and> get_original_name (get_duplicate_name filename) = get_duplicate_name filename)"
proof (intro conjI impI)
  assume h: "CHR ''/'' \<notin> set filename \<and> path_suffix filename \<noteq> []
      \<and> \<not> list_all (\<lambda>c. c = CHR ''.'') (path_stem filename) \<and> newline \<notin> set (path_stem filename)"
  then obtain u t where ut: "path_name filename = u @ CHR ''.'' # t" "u \<noteq> []" "t \<noteq> []"
      "CHR ''.'' \<notin> set t" "path_stem filename = u" "path_suffix filename = CHR ''.'' # t"
    using suffix_cases by blast
  have "filename \<noteq> []" "filename \<noteq> ''.''"
    using ut(1,2) by (auto simp: path_name_def path_parts_def)
  then have "path_name filename = filename" using h by (simp add: path_name_component)
  moreover have "match_duplicate (u @ '' (1)'' @ CHR ''.'' # t) = Some (u, CHR ''.'' # t)"
    using h ut by (intro match_duplicate_split) auto
  ultimately show "get_original_name (get_duplicate_name filename) = filename"
    using ut by (simp add: get_original_name_def get_duplicate_name_def)
next
  assume h: "CHR ''.'' \<notin> set (tl (path_name filename))"
  have nosuf: "\<not> (0 < rfind CHR ''.'' (path_name filename))"
  proof (cases "CHR ''.'' \<in> set (path_name filename)")
    case True
    then obtain u t where ut: "path_name filename = u @ CHR ''.'' # t"
        "rfind CHR ''.'' (path_name filename) = int (length u)"
      using rfind_last by blast
    with h have "u = []" by (cases u) auto
    with ut show ?thesis by simp
  next
    case False
    then show ?thesis by (simp add: rfind_absent)
  qed
  then show dup: "get_duplicate_name filename = path_name filename @ '' (1)''"
    by (simp add: get_duplicate_name_def path_stem_def path_suffix_def Let_def)
  have "CHR ''.'' \<notin> set (tl (path_name filename @ '' (1)''))"
    using h by (cases "path_name filename") auto
  then have "match_duplicate (get_duplicate_name filename) = None"
    unfolding dup by (rule match_duplicate_dotless_tail)
  then show "get_original_name (get_duplicate_name filename) = get_duplicate_name filename"
    by (simp add: get_original_name_def)
qed

theorem duplicate_name_roundtrip_witness:
  "get_original_name (get_duplicate_name ''file.json'') = ''file.json''
   \<and> get_duplicate_name ''README'' = ''README (1)''
   \<and> get_original_name (get_duplicate_name ''README'') = ''README (1)''"
proof -
  have a: "CHR ''/'' \<notin> set ''file.json'' \<and> path_suffix ''file.json'' \<noteq> []
             \<and> \<not> list_all (\<lambda>c. c = CHR ''.'') (path_stem ''file.json'')
             \<and> newline \<notin> set (path_stem ''file.json'')"
    by (simp add: path_suffix_def path_stem_def path_name_def path_parts_def rfind_def newline_def)
  have b: "CHR ''.'' \<notin> set (tl (path_name ''README''))"
    by (simp add: path_name_def path_parts_def)
  have c: "path_name ''README'' = ''README''"
    by (simp add: path_name_def path_parts_def)
  note r1 = duplicate_name_roundtrip [of "''file.json''", THEN conjunct1, rule_format, OF a]
  note r2 = duplicate_name_roundtrip [of "''README''", THEN conjunct2, rule_format, OF b]
  from r2 c have d: "get_duplicate_name ''README'' = ''README (1)''" by simp
  from r2 have "get_original_name (get_duplicate_name ''README'') = get_duplicate_name ''README''" ..
  then have "get_original_name (get_duplicate_name ''README'') = ''README (1)''"
    by (simp only: d)
  with r1 d show ?thesis by blast
qed

text \<open>
  The claim as stated fails on a dot file: \<open>.bidsignore\<close> has a final dot followed by
  non-dot characters, but \<open>pathlib\<close> gives it no suffix.
\<close>

theorem dotfile_roundtrip_counterexample:
  "CHR ''.'' \<in> set ''.bidsignore'' \<and> last ''.bidsignore'' \<noteq> CHR ''.''
   \<and> get_original_name (get_duplicate_name ''.bidsignore'') \<noteq> ''.bidsignore''"
  by code_simp

lemma path_walk_chain:
  "length (parent_chain k pkg_lookup current) < k \<Longrightarrow>
   \<exists>ps. path_walk pkg_lookup current parts steps
          = Some (ps, steps + length (parent_chain k pkg_lookup current))"
proof (induction k arbitrary: current parts steps)
  case 0
  then show ?case by simp
next
  case (Suc k)
  show ?case
  proof (cases "content_parentId current")
    case None
    then show ?thesis by (subst path_walk.simps) simp
  next
    case (Some parent_id)
    show ?thesis
    proof (cases "parent_id = [] \<or> pkg_lookup parent_id = None")
      case True
      with Some show ?thesis by (subst path_walk.simps) auto
    next
      case False
      then obtain parent where parent: "pkg_lookup parent_id = Some parent" and ne: "parent_id \<noteq> []"
        by auto
      from Suc.prems Some parent ne have "length (parent_chain k pkg_lookup parent) < k" by simp
      from Suc.IH [OF this] obtain ps where
        "path_walk pkg_lookup parent
           (if get_default (content_name parent) [] \<noteq> [] then get_default (content_name parent) [] # parts
            else parts) (Suc steps)
         = Some (ps, Suc steps + length (parent_chain k pkg_lookup parent))"
        by blast
      with Some parent ne show ?thesis by (subst path_walk.simps) (simp add: Let_def)
    qed
  qed
qed

lemma parent_chain_dom: "set (parent_chain k pkg_lookup current) \<subseteq> dom pkg_lookup"
proof (induction k arbitrary: current)
  case 0
  then show ?case by simp
next
  case (Suc k)
  show ?case
  proof (cases "content_parentId current")
    case None
    then show ?thesis by simp
  next
    case (Some parent_id)
    show ?thesis
    proof (cases "pkg_lookup parent_id")
      case None
      with Some show ?thesis by simp
    next
      case (Some parent)
      with \<open>content_parentId current = Some parent_id\<close> Suc.IH [of parent]
      show ?thesis by auto
    qed
  qed
qed

lemma pkg_lookup_loop_dom:
  "finite (dom m) \<Longrightarrow>
   finite (dom (pkg_lookup_loop m pkgs)) \<and> card (dom (pkg_lookup_loop m pkgs)) \<le> card (dom m) + length pkgs"
proof (induction pkgs arbitrary: m)
  case Nil
  then show ?case by simp
next
  case (Cons pkg rest)
  show ?case
  proof (cases "content_id pkg")
    case None
    with Cons.IH [OF Cons.prems] show ?thesis by auto
  next
    case (Some i)
    show ?thesis
    proof (cases "i = []")
      case True
      with Some Cons.IH [OF Cons.prems] show ?thesis by auto
    next
      case False
      have fin: "finite (dom (m(i \<mapsto> pkg)))" using Cons.prems by simp
      have c: "card (dom (m(i \<mapsto> pkg))) \<le> Suc (card (dom m))"
        using Cons.prems by (simp add: card_insert_if)
      have eq: "pkg_lookup_loop m (pkg # rest) = pkg_lookup_loop (m(i \<mapsto> pkg)) rest"
        using Some False by simp
      have len: "length (pkg # rest) = Suc (length rest)" by simp
      from Cons.IH [OF fin] have A: "finite (dom (pkg_lookup_loop (m(i \<mapsto> pkg)) rest))"
        and B: "card (dom (pkg_lookup_loop (m(i \<mapsto> pkg)) rest))
                \<le> card (dom (m(i \<mapsto> pkg))) + length rest"
        by blast+
      show ?thesis unfolding eq len
      proof
        show "finite (dom (pkg_lookup_loop (m(i \<mapsto> pkg)) rest))" by (rule A)
        show "card (dom (pkg_lookup_loop (m(i \<mapsto> pkg)) rest)) \<le> card (dom m) + Suc (length rest)"
          using B c by linarith
      qed
    qed
  qed
qed

lemma parent_chain_Suc:
  assumes "parent_chain (Suc k) L cur \<noteq> []"
  shows "\<exists>parent_id parent. content_parentId cur = Some parent_id \<and> parent_id \<noteq> []
           \<and> L parent_id = Some parent
           \<and> parent_chain (Suc k) L cur = parent_id # parent_chain k L parent"
proof (cases "content_parentId cur")
  case None
  with assms show ?thesis by simp
next
  case (Some parent_id)
  show ?thesis
  proof (cases "parent_id = []")
    case True
    with Some assms show ?thesis by simp
  next
    case False
    show ?thesis
    proof (cases "L parent_id")
      case None
      with Some False assms show ?thesis by simp
    next
      case parent: (Some parent)
      with Some False show ?thesis by simp
    qed
  qed
qed

lemma revisit_diverges:
  assumes "path_walk L cur parts n = Some y"
  shows "\<not> (\<exists>j m q. ancestor j L cur = Some q \<and> 0 < m \<and> ancestor m L q = Some q)"
proof (rule path_walk.raw_induct
    [where P = "\<lambda>L cur parts n y. \<not> (\<exists>j m q. ancestor j L cur = Some q \<and> 0 < m \<and> ancestor m L q = Some q)",
      OF _ assms], goal_cases)
  case (1 f L cur parts n y)
  note IH = "1"(1) and step = "1"(2)
  show ?case
  proof
    assume "\<exists>j m q. ancestor j L cur = Some q \<and> 0 < m \<and> ancestor m L q = Some q"
    then obtain j m q where j: "ancestor j L cur = Some q" and m: "0 < m" "ancestor m L q = Some q"
      by blast
    have "\<exists>q'. parent_of L cur = Some q' \<and> (\<exists>j'. ancestor j' L q' = Some q)"
    proof (cases j)
      case 0
      with j have "q = cur" by simp
      moreover from m obtain m' where "m = Suc m'" by (cases m) auto
      ultimately show ?thesis using m(2) by (auto split: option.splits)
    next
      case (Suc j')
      with j show ?thesis by (auto split: option.splits)
    qed
    then obtain q' j' where q': "parent_of L cur = Some q'" and j': "ancestor j' L q' = Some q" by blast
    from q' step obtain parts' where "f L q' parts' (Suc n) = Some y"
      by (auto simp: parent_of_def Let_def split: option.splits if_splits)
    from IH [OF this] j' m show False by blast
  qed
qed

lemma parent_chain_member:
  "i \<in> set (parent_chain k L cur) \<Longrightarrow> \<exists>m q. 0 < m \<and> ancestor m L cur = Some q \<and> L i = Some q"
proof (induction k arbitrary: cur)
  case 0
  then show ?case by simp
next
  case (Suc k)
  from Suc.prems have "parent_chain (Suc k) L cur \<noteq> []" by (metis empty_iff empty_set)
  from parent_chain_Suc [OF this] obtain parent_id parent where
    p: "content_parentId cur = Some parent_id" "parent_id \<noteq> []" "L parent_id = Some parent"
    and eq: "parent_chain (Suc k) L cur = parent_id # parent_chain k L parent"
    by blast
  from Suc.prems have mem: "i = parent_id \<or> i \<in> set (parent_chain k L parent)"
    unfolding eq by simp
  from p have po: "parent_of L cur = Some parent" by (simp add: parent_of_def)
  from mem show ?case
  proof
    assume "i = parent_id"
    with p po have "ancestor (Suc 0) L cur = Some parent \<and> L i = Some parent" by simp
    then show ?thesis by blast
  next
    assume "i \<in> set (parent_chain k L parent)"
    from Suc.IH [OF this] obtain m q where "0 < m" "ancestor m L parent = Some q" "L i = Some q"
      by blast
    with po have "ancestor (Suc m) L cur = Some q \<and> L i = Some q" by simp
    then show ?thesis by blast
  qed
qed

lemma parent_chain_revisit:
  "\<not> distinct (parent_chain k L cur)
   \<Longrightarrow> \<exists>j m q. ancestor j L cur = Some q \<and> 0 < m \<and> ancestor m L q = Some q"
proof (induction k arbitrary: cur)
  case 0
  then show ?case by simp
next
  case (Suc k)
  from Suc.prems have "parent_chain (Suc k) L cur \<noteq> []" by (metis distinct.simps(1))
  from parent_chain_Suc [OF this] obtain parent_id parent where
    p: "content_parentId cur = Some parent_id" "parent_id \<noteq> []" "L parent_id = Some parent"
    and eq: "parent_chain (Suc k) L cur = parent_id # parent_chain k L parent"
    by blast
  from Suc.prems
  have nd: "parent_id \<in> set (parent_chain k L parent) \<or> \<not> distinct (parent_chain k L parent)"
    unfolding eq by simp
  from p have po: "parent_of L cur = Some parent" by (simp add: parent_of_def)
  from nd show ?case
  proof
    assume "parent_id \<in> set (parent_chain k L parent)"
    from parent_chain_member [OF this] p(3) obtain m where "0 < m" "ancestor m L parent = Some parent"
      by auto
    moreover from po have "ancestor (Suc 0) L cur = Some parent" by simp
    ultimately show ?thesis by blast
  next
    assume "\<not> distinct (parent_chain k L parent)"
    from Suc.IH [OF this] obtain j m q where "ancestor j L parent = Some q" "0 < m"
        "ancestor m L q = Some q" by blast
    moreover from this(1) po have "ancestor (Suc j) L cur = Some q" by simp
    ultimately show ?thesis by blast
  qed
qed

lemma get_package_path_returns:
  assumes d: "distinct (parent_chain (Suc (length all_packages))
                          (pkg_lookup_loop Map.empty all_packages) package)"
  shows "\<exists>path steps. get_package_path_steps package all_packages = Some (path, steps)
                    \<and> get_package_path package all_packages = Some path
                    \<and> steps \<le> length all_packages"
proof -
  let ?L = "pkg_lookup_loop Map.empty all_packages"
  let ?c = "parent_chain (Suc (length all_packages)) ?L package"
  have fin: "finite (dom ?L)" and cd: "card (dom ?L) \<le> length all_packages"
    using pkg_lookup_loop_dom [of Map.empty all_packages] by simp_all
  have "length ?c = card (set ?c)" using d by (metis distinct_card)
  also have "\<dots> \<le> card (dom ?L)" by (rule card_mono [OF fin parent_chain_dom])
  finally have len: "length ?c \<le> length all_packages" using cd by simp
  then have "length ?c < Suc (length all_packages)" by simp
  from path_walk_chain [OF this, of "[]" 0] obtain ps where
    "path_walk ?L package [] 0 = Some (ps, length ?c)" by auto
  then have "get_package_path_steps package all_packages = Some (str_join ''/'' ps, length ?c)"
    unfolding get_package_path_steps_def by simp
  with len show ?thesis
    unfolding get_package_path_def by simp
qed

lemma get_package_path_diverges:
  assumes "\<not> distinct (parent_chain (Suc (length all_packages))
                           (pkg_lookup_loop Map.empty all_packages) package)"
  shows "get_package_path package all_packages = None"
proof -
  let ?L = "pkg_lookup_loop Map.empty all_packages"
  from parent_chain_revisit [OF assms] revisit_diverges [of ?L package "[]" 0]
  have "path_walk ?L package [] 0 = None" by (cases "path_walk ?L package [] 0") auto
  then show ?thesis
    unfolding get_package_path_def get_package_path_steps_def by simp
qed

text \<open>
  Claim C3, as the code has it. \<open>parent_chain k\<close> lists the first \<open>k\<close> parent ids the walk
  resolves. When no id occurs twice among the first \<open>|packages| + 1\<close> of them (an id that
  is missing from the list, empty or absent ends the chain, as reaching the root), path
  resolution returns, after at most \<open>|packages|\<close> parent steps. When an id does occur
  twice, the walk never returns: the loop keeps no set of visited ids.
\<close>

theorem get_package_path_bound:
  "(distinct (parent_chain (Suc (length all_packages)) (pkg_lookup_loop Map.empty all_packages) package)
     \<longrightarrow> (\<exists>path steps. get_package_path_steps package all_packages = Some (path, steps)
                    \<and> get_package_path package all_packages = Some path
                    \<and> steps \<le> length all_packages))
   \<and> (\<not> distinct (parent_chain (Suc (length all_packages)) (pkg_lookup_loop Map.empty all_packages) package)
     \<longrightarrow> get_package_path package all_packages = None)"
proof (intro conjI impI)
  assume "distinct (parent_chain (Suc (length all_packages)) (pkg_lookup_loop Map.empty all_packages) package)"
  then show "\<exists>path steps. get_package_path_steps package all_packages = Some (path, steps)
                    \<and> get_package_path package all_packages = Some path
                    \<and> steps \<le> length all_packages"
    by (rule get_package_path_returns)
next
  assume "\<not> distinct (parent_chain (Suc (length all_packages)) (pkg_lookup_loop Map.empty all_packages) package)"
  then show "get_package_path package all_packages = None"
    by (rule get_package_path_diverges)
qed

lemma cyclic_walk_diverges:
  assumes "path_walk L cur parts n = Some y"
  shows "L = [''a'' \<mapsto> pkgA, ''b'' \<mapsto> pkgB] \<longrightarrow> cur \<noteq> pkgA \<and> cur \<noteq> pkgB"
proof (rule path_walk.raw_induct
    [where P = "\<lambda>L cur parts n y. L = [''a'' \<mapsto> pkgA, ''b'' \<mapsto> pkgB] \<longrightarrow> cur \<noteq> pkgA \<and> cur \<noteq> pkgB",
      OF _ assms], goal_cases)
  case (1 f L cur parts n y)
  note IH = "1"(1) and step = "1"(2)
  show ?case
  proof (intro impI, rule ccontr)
    assume L: "L = [''a'' \<mapsto> pkgA, ''b'' \<mapsto> pkgB]"
    assume "\<not> (cur \<noteq> pkgA \<and> cur \<noteq> pkgB)"
    then consider "cur = pkgA" | "cur = pkgB" by blast
    then show False
    proof cases
      case 1
      with step L obtain p m where "f L pkgB p m = Some y"
        by (simp add: pkgA_def Let_def)
      from IH [OF this] L show False by simp
    next
      case 2
      with step L obtain p m where "f L pkgA p m = Some y"
        by (simp add: pkgB_def Let_def)
      from IH [OF this] L show False by simp
    qed
  qed
qed

text \<open>
  The claim as stated fails on a cycle: with two packages that name each other as parent,
  path resolution never returns.
\<close>

theorem get_package_path_cycle_counterexample:
  "get_package_path pkgA [pkgA, pkgB] = None"
proof -
  have lk: "pkg_lookup_loop Map.empty [pkgA, pkgB] = [''a'' \<mapsto> pkgA, ''b'' \<mapsto> pkgB]"
    by (simp add: pkgA_def pkgB_def)
  have "path_walk [''a'' \<mapsto> pkgA, ''b'' \<mapsto> pkgB] pkgA [] 0 = None"
    using cyclic_walk_diverges [of "[''a'' \<mapsto> pkgA, ''b'' \<mapsto> pkgB]" pkgA "[]" 0]
    by (cases "path_walk [''a'' \<mapsto> pkgA, ''b'' \<mapsto> pkgB] pkgA [] 0") auto
  then show ?thesis unfolding get_package_path_def get_package_path_steps_def lk by simp
qed

theorem get_package_path_bound_witness:
  "(\<exists>path steps. get_package_path_steps pkgC [pkgRoot, pkgB\<lparr>content_parentId := Some ''a''\<rparr>, pkgC]
                     = Some (path, steps)
        \<and> get_package_path pkgC [pkgRoot, pkgB\<lparr>content_parentId := Some ''a''\<rparr>, pkgC] = Some path
        \<and> steps \<le> length [pkgRoot, pkgB\<lparr>content_parentId := Some ''a''\<rparr>, pkgC])
   \<and> get_package_path pkgB [pkgA, pkgB] = None"
proof -
  let ?pkgs = "[pkgRoot, pkgB\<lparr>content_parentId := Some ''a''\<rparr>, pkgC]"
  have d: "distinct (parent_chain (Suc (length ?pkgs)) (pkg_lookup_loop Map.empty ?pkgs) pkgC)"
    by (simp add: pkgRoot_def pkgB_def pkgC_def)
  have n: "\<not> distinct (parent_chain (Suc (length [pkgA, pkgB])) (pkg_lookup_loop Map.empty [pkgA, pkgB]) pkgB)"
    by (simp add: pkgA_def pkgB_def)
  from get_package_path_bound [of ?pkgs pkgC, THEN conjunct1, rule_format, OF d]
    get_package_path_bound [of "[pkgA, pkgB]" pkgB, THEN conjunct2, rule_format, OF n]
  show ?thesis by blast
qed

lemma resolve_path_scenario:
  "get_package_path pkgC [pkgRoot, pkgB\<lparr>content_parentId := Some ''a''\<rparr>, pkgC] = Some ''ieeg/sub01''"
  unfolding get_package_path_def get_package_path_steps_def
  by (simp add: path_walk.simps pkgRoot_def pkgB_def pkgC_def get_default_def)

lemma cleanup_loop_append:
  "cleanup_loop mr ds loc (ts1 @ ts2) s k self =
     (case cleanup_loop mr ds loc ts1 s k self of
        ((s', k'), self') \<Rightarrow> cleanup_loop mr ds loc ts2 s' k' self')"
proof (induction ts1 arbitrary: s k self)
  case Nil
  show ?case by simp
next
  case (Cons t ts1)
  show ?case
    by (simp add: Cons.IH Let_def split: prod.splits option.splits)
qed

lemma cleanup_loop_counts:
  "cleanup_loop mr ds loc ts s k self = ((s', k'), self') \<Longrightarrow> s' + k' = s + k + length ts"
proof (induction ts arbitrary: s k self)
  case Nil
  then show ?case by simp
next
  case (Cons t ts)
  from Cons.prems show ?case
    by (auto simp: Let_def split: prod.splits option.splits if_splits dest!: Cons.IH)
qed

lemma delete_package_calls:
  "delete_package mr self pid = (ok, self1) \<Longrightarrow> calls self1 = calls self @ [DeletePackage pid]"
  by (auto simp: delete_package_def Let_def split: if_splits prod.splits)

lemma rename_package_calls:
  "rename_package mr self pid new_name = (ok, self1)
   \<Longrightarrow> calls self1 = calls self @ [RenamePackage pid new_name]"
  by (auto simp: rename_package_def Let_def split: if_splits prod.splits)

lemma pkg_by_location_loop_returns:
  "list_all (\<lambda>p. \<exists>path. get_package_path p packages = Some path) rest
   \<Longrightarrow> \<exists>loc. pkg_by_location_loop packages m rest = Some loc"
proof (induction rest arbitrary: m)
  case Nil
  show ?case by simp
next
  case (Cons p rest)
  from Cons.prems obtain path where p: "get_package_path p packages = Some path"
    and r: "list_all (\<lambda>p. \<exists>path. get_package_path p packages = Some path) rest"
    by auto
  from Cons.IH [OF r, of "m((path, get_default (content_name p) []) \<mapsto> p)"] obtain loc where
    "pkg_by_location_loop packages (m((path, get_default (content_name p) []) \<mapsto> p)) rest = Some loc"
    by blast
  with p show ?case by (simp add: Let_def)
qed

lemma pkg_by_location_loop_diverges:
  "\<not> list_all (\<lambda>p. \<exists>path. get_package_path p packages = Some path) rest
   \<Longrightarrow> pkg_by_location_loop packages m rest = None"
proof (induction rest arbitrary: m)
  case Nil
  then show ?case by simp
next
  case (Cons p rest)
  show ?case
  proof (cases "get_package_path p packages")
    case None
    then show ?thesis by (simp add: Let_def)
  next
    case (Some path)
    with Cons.prems have "\<not> list_all (\<lambda>p. \<exists>path. get_package_path p packages = Some path) rest"
      by simp
    from Cons.IH [OF this] Some show ?thesis by (simp add: Let_def)
  qed
qed

text \<open>A package's path resolution returns exactly when its parent chain meets no id twice.\<close>

lemma get_package_path_returns_iff:
  "(\<exists>path. get_package_path p packages = Some path)
   = distinct (parent_chain (Suc (length packages)) (pkg_lookup_loop Map.empty packages) p)"
proof
  assume "\<exists>path. get_package_path p packages = Some path"
  then show "distinct (parent_chain (Suc (length packages)) (pkg_lookup_loop Map.empty packages) p)"
    using get_package_path_diverges [of packages p] by (cases "distinct
      (parent_chain (Suc (length packages)) (pkg_lookup_loop Map.empty packages) p)") auto
next
  assume "distinct (parent_chain (Suc (length packages)) (pkg_lookup_loop Map.empty packages) p)"
  from get_package_path_returns [OF this] show "\<exists>path. get_package_path p packages = Some path"
    by blast
qed

text \<open>
  Claim C2. For a candidate \<open>(folder, filename)\<close>: when the original or the \<open>(1)\<close> duplicate
  is missing from the location index, the candidate is a skip and neither \<open>delete_package\<close>
  nor \<open>rename_package\<close> is called (the manager is unchanged). When both are present, the
  original is deleted first; a failed delete is a skip and the only call made; after a
  successful delete the duplicate is renamed to \<open>filename\<close>, a failed rename is a skip, and
  both succeeding is one success. The counts are aggregated over the candidates in order,
  every candidate counts once, and an unknown dataset returns \<open>(0, len(file_paths))\<close>. For
  a known dataset the call first resolves the path of every listed package: it returns the
  aggregated counts when no package's parent chain meets an id twice, and it never returns
  when some package's chain does, whatever the candidates are.
\<close>

theorem cleanup_duplicates_protocol:
  "(candidate_of ds t = (folder, filename) \<and>
      (loc (folder, filename) = None \<or> loc (folder, get_duplicate_name filename) = None)
      \<longrightarrow> cleanup_loop mr ds loc [t] s k self = ((s, Suc k), self))
   \<and> (candidate_of ds t = (folder, filename) \<and> loc (folder, filename) = Some original
        \<and> loc (folder, get_duplicate_name filename) = Some duplicate
        \<and> delete_package mr self (content_nodeId original) = (deleted, self1)
        \<and> rename_package mr self1 (content_nodeId duplicate) filename = (renamed, self2)
      \<longrightarrow> calls self1 = calls self @ [DeletePackage (content_nodeId original)]
          \<and> calls self2 = calls self @ [DeletePackage (content_nodeId original),
                                         RenamePackage (content_nodeId duplicate) filename]
          \<and> cleanup_loop mr ds loc [t] s k self =
                (if \<not> deleted then ((s, Suc k), self1)
                 else if \<not> renamed then ((s, Suc k), self2)
                 else ((Suc s, k), self2)))
   \<and> cleanup_loop mr ds loc (ts1 @ ts2) s k self =
        (case cleanup_loop mr ds loc ts1 s k self of
           ((s', k'), self') \<Rightarrow> cleanup_loop mr ds loc ts2 s' k' self')
   \<and> (cleanup_loop mr ds loc ts 0 0 self = ((successes, skips), self')
        \<longrightarrow> successes + skips = length ts)
   \<and> cleanup_duplicates mr None ds ts self = Some ((0, length ts), self)
   \<and> (pkg_by_location_loop packages Map.empty packages = Some loc
        \<longrightarrow> cleanup_duplicates mr (Some packages) ds ts self = Some (cleanup_loop mr ds loc ts 0 0 self))
   \<and> (list_all (\<lambda>p. distinct (parent_chain (Suc (length pkgs)) (pkg_lookup_loop Map.empty pkgs) p)) pkgs
        \<longrightarrow> (\<exists>index successes skips self'.
               pkg_by_location_loop pkgs Map.empty pkgs = Some index
               \<and> cleanup_loop mr ds index ts 0 0 self = ((successes, skips), self')
               \<and> cleanup_duplicates mr (Some pkgs) ds ts self = Some ((successes, skips), self')
               \<and> successes + skips = length ts))
   \<and> (\<not> list_all (\<lambda>p. distinct (parent_chain (Suc (length cyc)) (pkg_lookup_loop Map.empty cyc) p)) cyc
        \<longrightarrow> cleanup_duplicates mr (Some cyc) ds ts self = None)"
proof (intro conjI impI)
  assume "candidate_of ds t = (folder, filename) \<and>
      (loc (folder, filename) = None \<or> loc (folder, get_duplicate_name filename) = None)"
  then show "cleanup_loop mr ds loc [t] s k self = ((s, Suc k), self)"
    by (auto simp: Let_def split: option.splits)
next
  assume h: "candidate_of ds t = (folder, filename) \<and> loc (folder, filename) = Some original
        \<and> loc (folder, get_duplicate_name filename) = Some duplicate
        \<and> delete_package mr self (content_nodeId original) = (deleted, self1)
        \<and> rename_package mr self1 (content_nodeId duplicate) filename = (renamed, self2)"
  then show c1: "calls self1 = calls self @ [DeletePackage (content_nodeId original)]"
    by (auto dest: delete_package_calls)
  from h have "calls self2 = calls self1 @ [RenamePackage (content_nodeId duplicate) filename]"
    by (auto dest: rename_package_calls)
  with c1 show "calls self2 = calls self @ [DeletePackage (content_nodeId original),
                                         RenamePackage (content_nodeId duplicate) filename]"
    by simp
  from h show "cleanup_loop mr ds loc [t] s k self =
                (if \<not> deleted then ((s, Suc k), self1)
                 else if \<not> renamed then ((s, Suc k), self2)
                 else ((Suc s, k), self2))"
    by (simp add: Let_def)
next
  show "cleanup_loop mr ds loc (ts1 @ ts2) s k self =
        (case cleanup_loop mr ds loc ts1 s k self of
           ((s', k'), self') \<Rightarrow> cleanup_loop mr ds loc ts2 s' k' self')"
    by (rule cleanup_loop_append)
next
  assume "cleanup_loop mr ds loc ts 0 0 self = ((successes, skips), self')"
  from cleanup_loop_counts [OF this] show "successes + skips = length ts" by simp
next
  show "cleanup_duplicates mr None ds ts self = Some ((0, length ts), self)"
    by (simp add: cleanup_duplicates_def)
next
  assume "pkg_by_location_loop packages Map.empty packages = Some loc"
  then show "cleanup_duplicates mr (Some packages) ds ts self = Some (cleanup_loop mr ds loc ts 0 0 self)"
    by (simp add: cleanup_duplicates_def)
next
  assume "list_all (\<lambda>p. distinct (parent_chain (Suc (length pkgs)) (pkg_lookup_loop Map.empty pkgs) p)) pkgs"
  then have "list_all (\<lambda>p. \<exists>path. get_package_path p pkgs = Some path) pkgs"
    by (simp add: get_package_path_returns_iff)
  from pkg_by_location_loop_returns [OF this, of Map.empty] obtain index where
    ix: "pkg_by_location_loop pkgs Map.empty pkgs = Some index" by blast
  obtain successes skips self' where
    run: "cleanup_loop mr ds index ts 0 0 self = ((successes, skips), self')"
    by (metis surj_pair)
  from ix run have "cleanup_duplicates mr (Some pkgs) ds ts self = Some ((successes, skips), self')"
    by (simp add: cleanup_duplicates_def)
  moreover from cleanup_loop_counts [OF run] have "successes + skips = length ts" by simp
  ultimately show "\<exists>index successes skips self'.
               pkg_by_location_loop pkgs Map.empty pkgs = Some index
               \<and> cleanup_loop mr ds index ts 0 0 self = ((successes, skips), self')
               \<and> cleanup_duplicates mr (Some pkgs) ds ts self = Some ((successes, skips), self')
               \<and> successes + skips = length ts"
    using ix run by blast
next
  assume "\<not> list_all (\<lambda>p. distinct (parent_chain (Suc (length cyc)) (pkg_lookup_loop Map.empty cyc) p)) cyc"
  then have "\<not> list_all (\<lambda>p. \<exists>path. get_package_path p cyc = Some path) cyc"
    by (simp add: get_package_path_returns_iff)
  from pkg_by_location_loop_diverges [OF this, of Map.empty]
  show "cleanup_duplicates mr (Some cyc) ds ts self = None"
    by (simp add: cleanup_duplicates_def)
qed

lemma get_package_path_in_f:
  "get_package_path folderF [folderF, fileP, fileP1] = Some []"
  "get_package_path fileP [folderF, fileP, fileP1] = Some ''f''"
  "get_package_path fileP1 [folderF, fileP, fileP1] = Some ''f''"
  unfolding get_package_path_def get_package_path_steps_def
  by (simp_all add: path_walk.simps folderF_def fileP_def fileP1_def get_default_def)

lemma pkg_by_location_in_f:
  "pkg_by_location_loop [folderF, fileP, fileP1] Map.empty [folderF, fileP, fileP1] =
     Some [([], ''f'') \<mapsto> folderF, (''f'', ''p.tsv'') \<mapsto> fileP, (''f'', ''p (1).tsv'') \<mapsto> fileP1]"
  by (simp add: get_package_path_in_f) (simp add: folderF_def fileP_def fileP1_def get_default_def)

theorem cleanup_duplicates_protocol_witness:
  "cleanup_duplicates accept_all (Some [folderF, fileP, fileP1]) ''ds'' [''f/p.tsv''] manager0
     = Some ((1, 0), manager0\<lparr>calls := [DeletePackage (Some ''N:p''),
                                          RenamePackage (Some ''N:p1'') ''p.tsv'']\<rparr>)
   \<and> cleanup_loop accept_all ''ds'' [([], ''f'') \<mapsto> folderF, (''f'', ''p.tsv'') \<mapsto> fileP]
        [''f/p.tsv''] 0 0 manager0 = ((0, 1), manager0)
   \<and> (\<exists>index successes skips self'.
         pkg_by_location_loop [folderF, fileP, fileP1] Map.empty [folderF, fileP, fileP1] = Some index
         \<and> cleanup_loop accept_all ''ds'' index [''f/p.tsv'', ''f/q.json''] 0 0 manager0
             = ((successes, skips), self')
         \<and> cleanup_duplicates accept_all (Some [folderF, fileP, fileP1]) ''ds''
             [''f/p.tsv'', ''f/q.json''] manager0 = Some ((successes, skips), self')
         \<and> successes + skips = length [''f/p.tsv'', ''f/q.json''])
   \<and> cleanup_duplicates accept_all (Some [folderF, pkgA, pkgB]) ''ds'' [''f/p.tsv''] manager0 = None
   \<and> (1::nat) + 0 = length [''f/p.tsv'']"
proof -
  let ?loc = "[([], ''f'') \<mapsto> folderF, (''f'', ''p.tsv'') \<mapsto> fileP, (''f'', ''p (1).tsv'') \<mapsto> fileP1]"
  let ?m1 = "manager0\<lparr>calls := [DeletePackage (Some ''N:p'')]\<rparr>"
  let ?m2 = "manager0\<lparr>calls := [DeletePackage (Some ''N:p''), RenamePackage (Some ''N:p1'') ''p.tsv'']\<rparr>"
  have cand: "candidate_of ''ds'' ''f/p.tsv'' = (''f'', ''p.tsv'')"
    by (simp add: candidate_of_def str_replace_def parent_folder_of_def path_root_def
        path_parts_def path_name_def Let_def)
  have dup: "get_duplicate_name ''p.tsv'' = ''p (1).tsv''"
    by (simp add: get_duplicate_name_def path_stem_def path_suffix_def path_name_def path_parts_def
        rfind_def Let_def)
  have del: "delete_package accept_all manager0 (content_nodeId fileP) = (True, ?m1)"
    by (simp add: delete_package_def accept_all_def manager0_def fileP_def)
  have ren: "rename_package accept_all ?m1 (content_nodeId fileP1) ''p.tsv'' = (True, ?m2)"
    by (simp add: rename_package_def accept_all_def manager0_def fileP1_def)
  have both: "candidate_of ''ds'' ''f/p.tsv'' = (''f'', ''p.tsv'') \<and> ?loc (''f'', ''p.tsv'') = Some fileP
        \<and> ?loc (''f'', get_duplicate_name ''p.tsv'') = Some fileP1
        \<and> delete_package accept_all manager0 (content_nodeId fileP) = (True, ?m1)
        \<and> rename_package accept_all ?m1 (content_nodeId fileP1) ''p.tsv'' = (True, ?m2)"
    using cand del ren by (simp add: dup)
  have run: "cleanup_loop accept_all ''ds'' ?loc [''f/p.tsv''] 0 0 manager0 = ((1, 0), ?m2)"
    using cleanup_duplicates_protocol [where ds = "''ds''" and t = "''f/p.tsv''" and folder = "''f''"
        and filename = "''p.tsv''" and mr = accept_all and self = manager0 and s = 0 and k = 0
        and loc = ?loc and original = fileP and duplicate = fileP1 and deleted = True
        and ?self1.0 = ?m1 and renamed = True and ?self2.0 = ?m2, THEN conjunct2, THEN conjunct1] both
    by simp
  have top: "cleanup_duplicates accept_all (Some [folderF, fileP, fileP1]) ''ds'' [''f/p.tsv''] manager0
      = Some (cleanup_loop accept_all ''ds'' ?loc [''f/p.tsv''] 0 0 manager0)"
    using cleanup_duplicates_protocol [where ds = "''ds''" and mr = accept_all and self = manager0
        and ts = "[''f/p.tsv'']" and packages = "[folderF, fileP, fileP1]" and loc = ?loc,
        THEN conjunct2, THEN conjunct2, THEN conjunct2, THEN conjunct2, THEN conjunct2]
      pkg_by_location_in_f
    by blast
  let ?loc1 = "[([], ''f'') \<mapsto> folderF, (''f'', ''p.tsv'') \<mapsto> fileP]"
  have one: "candidate_of ''ds'' ''f/p.tsv'' = (''f'', ''p.tsv'') \<and>
      (?loc1 (''f'', ''p.tsv'') = None \<or> ?loc1 (''f'', get_duplicate_name ''p.tsv'') = None)"
    using cand by (simp add: dup)
  have skip: "cleanup_loop accept_all ''ds'' ?loc1 [''f/p.tsv''] 0 0 manager0 = ((0, 1), manager0)"
    using cleanup_duplicates_protocol [where ds = "''ds''" and t = "''f/p.tsv''" and folder = "''f''"
        and filename = "''p.tsv''" and mr = accept_all and self = manager0 and s = 0 and k = 0
        and loc = ?loc1, THEN conjunct1] one by simp
  have dist: "list_all (\<lambda>p. distinct (parent_chain (Suc (length [folderF, fileP, fileP1]))
                    (pkg_lookup_loop Map.empty [folderF, fileP, fileP1]) p)) [folderF, fileP, fileP1]"
    by (simp add: folderF_def fileP_def fileP1_def)
  have cyc: "\<not> list_all (\<lambda>p. distinct (parent_chain (Suc (length [folderF, pkgA, pkgB]))
                    (pkg_lookup_loop Map.empty [folderF, pkgA, pkgB]) p)) [folderF, pkgA, pkgB]"
    by (simp add: folderF_def pkgA_def pkgB_def)
  note R = cleanup_duplicates_protocol [where mr = accept_all and ds = "''ds''" and self = manager0
      and ts = "[''f/p.tsv'', ''f/q.json'']" and pkgs = "[folderF, fileP, fileP1]",
      THEN conjunct2, THEN conjunct2, THEN conjunct2, THEN conjunct2, THEN conjunct2, THEN conjunct2,
      THEN conjunct1, rule_format, OF dist]
  note D = cleanup_duplicates_protocol [where mr = accept_all and ds = "''ds''" and self = manager0
      and ts = "[''f/p.tsv'']" and cyc = "[folderF, pkgA, pkgB]",
      THEN conjunct2, THEN conjunct2, THEN conjunct2, THEN conjunct2, THEN conjunct2, THEN conjunct2,
      THEN conjunct2, rule_format, OF cyc]
  from run top have a: "cleanup_duplicates accept_all (Some [folderF, fileP, fileP1]) ''ds'' [''f/p.tsv''] manager0
     = Some ((1, 0), manager0\<lparr>calls := [DeletePackage (Some ''N:p''),
                                          RenamePackage (Some ''N:p1'') ''p.tsv'']\<rparr>)"
    by simp
  note N = cleanup_duplicates_protocol [where mr = accept_all and ds = "''ds''" and self = manager0
      and ts = "[''f/p.tsv'']" and loc = ?loc and successes = 1 and skips = 0 and self' = ?m2,
      THEN conjunct2, THEN conjunct2, THEN conjunct2, THEN conjunct1, rule_format, OF run]
  from a skip R D N show ?thesis by blast
qed

text \<open>
  The claim as stated fails on a package list with a parent cycle: the call resolves every
  listed package's path before it looks at a candidate, and so never returns a count.
\<close>

theorem cleanup_duplicates_cycle_counterexample:
  "get_package_path pkgA [pkgA, pkgB] = None
   \<and> cleanup_duplicates accept_all (Some [pkgA, pkgB]) ''ds'' [''f/p.tsv''] manager0 = None"
proof -
  have n: "\<not> distinct (parent_chain (Suc (length [pkgA, pkgB])) (pkg_lookup_loop Map.empty [pkgA, pkgB]) pkgA)"
    by (simp add: pkgA_def pkgB_def)
  from get_package_path_diverges [OF n] have p: "get_package_path pkgA [pkgA, pkgB] = None" .
  then have "pkg_by_location_loop [pkgA, pkgB] Map.empty [pkgA, pkgB] = None"
    by (simp add: Let_def)
  with p show ?thesis by (simp add: cleanup_duplicates_def)
qed










lemma map_of_dict_set: "map_of (dict_set d k v) = (map_of d)(k \<mapsto> v)"
  by (induction d) (auto simp: fun_eq_iff)

lemma map_of_dict_merge_rev: "map_of (dict_merge a b) = map_of a ++ map_of (rev b)"
  unfolding dict_merge_def
proof (induction b arbitrary: a)
  case Nil
  show ?case by simp
next
  case (Cons kv b)
  obtain k v where kv: "kv = (k, v)" by (cases kv)
  show ?case
    by (simp add: kv Cons.IH map_of_dict_set fun_eq_iff map_add_def split: option.splits)
qed

lemma map_of_rev_distinct: "distinct (map fst xs) \<Longrightarrow> map_of (rev xs) = map_of xs"
proof (induction xs)
  case Nil
  show ?case by simp
next
  case (Cons kv xs)
  obtain k v where kv: "kv = (k, v)" by (cases kv)
  from Cons.prems kv have "map_of xs k = None" by (simp add: map_of_eq_None_iff)
  with Cons show ?case
    by (auto simp: kv fun_eq_iff map_add_def split: option.splits)
qed

lemma map_of_dict_merge:
  "distinct (map fst b) \<Longrightarrow> map_of (dict_merge a b) = map_of a ++ map_of b"
  by (simp add: map_of_dict_merge_rev map_of_rev_distinct)

lemma merge_lookup:
  "distinct (keys S) \<Longrightarrow>
   dict_get (dict_merge D S) k = (case dict_get S k of Some v \<Rightarrow> Some v | None \<Rightarrow> dict_get D k)"
  by (simp add: dict_get_def keys_def map_of_dict_merge map_add_def split: option.splits)

lemma map_of_filter_keys:
  "map_of (filter (\<lambda>(k, v). P k) d) k = (if P k then map_of d k else None)"
  by (induction d) auto

lemma keys_dom: "set (keys d) = dom (map_of d)"
  by (simp add: keys_def dom_map_of_conv_image_fst)

lemma keys_dict_set: "set (keys (dict_set d k v)) = insert k (set (keys d))"
  by (simp add: keys_dom map_of_dict_set)

lemma setattr_loop_accepted:
  "list_all (\<lambda>k. class_attr k = NoAttribute \<or> class_attr k = Attribute) (keys kwargs) \<Longrightarrow>
   \<exists>attrs'. setattr_loop class_attr kwargs (False, attrs) = Inr (False, attrs')
      \<and> set (keys attrs') \<subseteq> set (keys attrs) \<union> set (keys kwargs)
      \<and> map_of attrs' ''data'' = (map_of attrs ++ map_of (rev kwargs)) ''data''"
proof (induction kwargs arbitrary: attrs)
  case Nil
  show ?case by simp
next
  case (Cons kv kwargs)
  obtain k v where kv: "kv = (k, v)" by (cases kv)
  from Cons.prems kv have acc: "class_attr k = NoAttribute \<or> class_attr k = Attribute"
    and rest: "list_all (\<lambda>k. class_attr k = NoAttribute \<or> class_attr k = Attribute) (keys kwargs)"
    by (simp_all add: keys_def)
  show ?case
  proof (cases "hasattr class_attr False attrs k")
    case True
    from Cons.IH [OF rest, of "dict_set attrs k v"] obtain attrs' where
      l: "setattr_loop class_attr kwargs (False, dict_set attrs k v) = Inr (False, attrs')"
      and s: "set (keys attrs') \<subseteq> set (keys (dict_set attrs k v)) \<union> set (keys kwargs)"
      and m: "map_of attrs' ''data'' = (map_of (dict_set attrs k v) ++ map_of (rev kwargs)) ''data''"
      by blast
    from acc True l have "setattr_loop class_attr (kv # kwargs) (False, attrs) = Inr (False, attrs')"
      by (auto simp: kv)
    moreover have "set (keys (kv # kwargs)) = insert k (set (keys kwargs))"
      by (simp add: kv keys_def)
    with s have "set (keys attrs') \<subseteq> set (keys attrs) \<union> set (keys (kv # kwargs))"
      unfolding keys_dict_set by blast
    moreover from m have "map_of attrs' ''data'' = (map_of attrs ++ map_of (rev (kv # kwargs))) ''data''"
      by (simp add: kv map_of_dict_set map_add_def split: option.splits)
    ultimately show ?thesis by blast
  next
    case False
    then have ne: "k \<noteq> ''data''" by (auto simp: hasattr_def)
    from Cons.IH [OF rest, of attrs] obtain attrs' where
      l: "setattr_loop class_attr kwargs (False, attrs) = Inr (False, attrs')"
      and s: "set (keys attrs') \<subseteq> set (keys attrs) \<union> set (keys kwargs)"
      and m: "map_of attrs' ''data'' = (map_of attrs ++ map_of (rev kwargs)) ''data''"
      by blast
    from False l have "setattr_loop class_attr (kv # kwargs) (False, attrs) = Inr (False, attrs')"
      by (simp add: kv)
    moreover have "set (keys (kv # kwargs)) = insert k (set (keys kwargs))"
      by (simp add: kv keys_def)
    with s have "set (keys attrs') \<subseteq> set (keys attrs) \<union> set (keys (kv # kwargs))"
      by blast
    moreover from m ne have "map_of attrs' ''data'' = (map_of attrs ++ map_of (rev (kv # kwargs))) ''data''"
      by (simp add: kv map_add_def split: option.splits)
    ultimately show ?thesis by blast
  qed
qed

text \<open>The base constructor returns when every keyword is accepted, none is named \<open>log\<close>, and a
  \<open>data\<close> keyword, if there is one, has a length.\<close>

lemma Sidecar_init_accepted:
  assumes acc: "list_all (\<lambda>k. class_attr k = NoAttribute \<or> class_attr k = Attribute) (keys kwargs)"
    and log: "''log'' \<notin> set (keys kwargs)"
    and dat: "case map_of (rev kwargs) ''data'' of Some v \<Rightarrow> sized v | None \<Rightarrow> True"
  shows "\<exists>ps attrs. Sidecar_init class_attr given_fields kwargs
             = Instance \<lparr>paths = ps, data = filter (\<lambda>(k, v). k \<notin> set excluded_fields) given_fields\<rparr> attrs
           \<and> set (keys attrs) \<subseteq> set (keys kwargs)
           \<and> map_of attrs ''data'' = map_of (rev kwargs) ''data''"
proof -
  from setattr_loop_accepted [OF acc, of "[]"] obtain attrs where
    l: "setattr_loop class_attr kwargs (False, []) = Inr (False, attrs)"
    and s: "set (keys attrs) \<subseteq> set (keys kwargs)"
    and m: "map_of attrs ''data'' = map_of (rev kwargs) ''data''"
    by (auto simp: keys_def)
  from s log have nl: "''log'' \<notin> set (keys attrs)" by blast
  from dat m have "\<not> (case dict_get attrs ''data'' of Some v \<Rightarrow> \<not> sized v | None \<Rightarrow> False)"
    by (simp add: dict_get_def split: option.splits)
  with l nl s m show ?thesis
    by (simp add: Sidecar_init_def Let_def)
qed

lemma keys_filter_subset: "set (keys (filter P d)) \<subseteq> set (keys d)"
  by (auto simp: keys_def)

lemma list_all_keys_filter: "list_all Q (keys d) \<Longrightarrow> list_all Q (keys (filter P d))"
  by (induction d) (auto simp: keys_def)

lemma map_of_rev_filter_other:
  "distinct (keys d) \<Longrightarrow> k \<notin> set named_parameters \<Longrightarrow>
   map_of (rev (filter (\<lambda>(k, v). k \<notin> set named_parameters) d)) k = map_of d k"
proof -
  assume d: "distinct (keys d)" and k: "k \<notin> set named_parameters"
  from d have "distinct (map fst (filter (\<lambda>(k, v). k \<notin> set named_parameters) d))"
    by (simp add: keys_def distinct_map_filter)
  then have "map_of (rev (filter (\<lambda>(k, v). k \<notin> set named_parameters) d)) k
             = map_of (filter (\<lambda>(k, v). k \<notin> set named_parameters) d) k"
    by (simp add: map_of_rev_distinct)
  also from k have "\<dots> = map_of d k" by (simp add: map_of_filter_keys)
  finally show ?thesis .
qed

lemma map_of_absent: "k \<notin> set (keys d) \<Longrightarrow> map_of d k = None"
  by (simp add: keys_def map_of_eq_None_iff)

text \<open>
  Claim C1, as the code has it. The effective record is the class defaults overridden by the
  supplied mapping: a supplied key wins, a missing key falls back to the default, and a key in
  neither is absent. This holds for every row of a TSV sidecar, through the constructor and
  through \<open>add_row\<close> (which appends and leaves the earlier rows alone), when the constructor is
  given no keyword named \<open>self\<close>, \<open>fields\<close>, \<open>rows\<close>, \<open>data\<close>, \<open>log\<close> or \<open>ROW_DEFAULTS\<close> and none whose
  assignment the class refuses or that is \<open>__dict__\<close>. For a JSON sidecar it holds, when the
  constructor is given no keyword named \<open>self\<close>, \<open>fields\<close>, \<open>data\<close>, \<open>log\<close> or \<open>DEFAULTS\<close> and none
  whose assignment the class refuses or that is \<open>__dict__\<close>, for every key except \<open>output_dir\<close>,
  \<open>input_dir\<close> and \<open>bids_path\<close>: the base constructor separates these out, so they are absent
  from the record even when supplied. A \<open>data\<close> keyword whose value has a length replaces
  the record: \<open>self.data\<close> is then the keyword's value, whatever the defaults and the
  supplied mapping are.
\<close>

theorem default_merge_semantics:
  "(distinct (keys S)
      \<and> list_all (\<lambda>k. k \<notin> set [''self'', ''fields'', ''data'', ''log'', ''DEFAULTS'']
                      \<and> (class_attr k = NoAttribute \<or> class_attr k = Attribute)) (keys kwargs) \<longrightarrow>
      (\<exists>self attrs. JSON_subclass_init class_attr D S kwargs = Instance self attrs
         \<and> instance_data self attrs = PDict (data self)
         \<and> dict_get (data self) k =
             (if k \<in> set excluded_fields then None
              else (case dict_get S k of Some v \<Rightarrow> Some v | None \<Rightarrow> dict_get D k))))
   \<and> (distinct (keys dkwargs) \<and> dict_get dkwargs ''data'' = Some v \<and> sized v
      \<and> list_all (\<lambda>k. k \<notin> set [''self'', ''fields'', ''log'', ''DEFAULTS'']
                      \<and> (class_attr k = NoAttribute \<or> class_attr k = Attribute)) (keys dkwargs) \<longrightarrow>
      (\<exists>self attrs. JSON_subclass_init class_attr D S dkwargs = Instance self attrs
         \<and> instance_data self attrs = v))
   \<and> (i < length given_rows \<and> distinct (keys (given_rows ! i))
      \<and> list_all (\<lambda>k. k \<notin> set [''self'', ''fields'', ''rows'', ''data'', ''log'', ''ROW_DEFAULTS'']
                      \<and> (class_attr k = NoAttribute \<or> class_attr k = Attribute)) (keys tkwargs) \<longrightarrow>
      (\<exists>self attrs. TSV_subclass_init class_attr D prints_defaults given_rows tkwargs = Instance self attrs
         \<and> length (rows self) = length given_rows
         \<and> dict_get (rows self ! i) k =
             (case dict_get (given_rows ! i) k of Some v \<Rightarrow> Some v | None \<Rightarrow> dict_get D k)))
   \<and> (distinct (keys row) \<longrightarrow>
        (\<exists>merged_row. rows (add_row D tself row) = rows tself @ [merged_row]
           \<and> dict_get merged_row k =
               (case dict_get row k of Some v \<Rightarrow> Some v | None \<Rightarrow> dict_get D k)))"
proof (intro conjI impI)
  let ?f = "filter (\<lambda>(k, v). k \<notin> set named_parameters)"
  assume h: "distinct (keys S)
      \<and> list_all (\<lambda>k. k \<notin> set [''self'', ''fields'', ''data'', ''log'', ''DEFAULTS'']
                      \<and> (class_attr k = NoAttribute \<or> class_attr k = Attribute)) (keys kwargs)"
  then have dS: "distinct (keys S)"
    and names: "list_all (\<lambda>k. k \<notin> set [''self'', ''fields'', ''data'', ''log'', ''DEFAULTS'']) (keys kwargs)"
    and acc: "list_all (\<lambda>k. class_attr k = NoAttribute \<or> class_attr k = Attribute) (keys kwargs)"
    by (simp_all add: list_all_iff)
  from names have out: "''self'' \<notin> set (keys kwargs)" "''fields'' \<notin> set (keys kwargs)"
    "''data'' \<notin> set (keys kwargs)" "''log'' \<notin> set (keys kwargs)" "''DEFAULTS'' \<notin> set (keys kwargs)"
    by (auto simp: list_all_iff)
  have sub: "set (keys (?f kwargs)) \<subseteq> set (keys kwargs)" by (rule keys_filter_subset)
  from out sub have log: "''log'' \<notin> set (keys (?f kwargs))" by blast
  from out sub have "''data'' \<notin> set (keys (?f kwargs))" by blast
  then have "map_of (rev (?f kwargs)) ''data'' = None"
    by (simp add: keys_def map_of_eq_None_iff)
  then have dat: "case map_of (rev (?f kwargs)) ''data'' of Some v \<Rightarrow> sized v | None \<Rightarrow> True"
    by simp
  from Sidecar_init_accepted [OF list_all_keys_filter [OF acc] log dat, of "dict_merge D S"]
  obtain ps attrs where
    i: "Sidecar_init class_attr (dict_merge D S) (?f kwargs)
          = Instance \<lparr>paths = ps, data = filter (\<lambda>(k, v). k \<notin> set excluded_fields) (dict_merge D S)\<rparr> attrs"
    and s: "set (keys attrs) \<subseteq> set (keys (?f kwargs))"
    by blast
  let ?self = "\<lparr>paths = ps, data = filter (\<lambda>(k, v). k \<notin> set excluded_fields) (dict_merge D S)\<rparr>"
  from s sub out have nd: "''data'' \<notin> set (keys attrs)" and nD: "''DEFAULTS'' \<notin> set (keys attrs)"
    by blast+
  from nd have gd: "dict_get attrs ''data'' = None" by (simp add: dict_get_def map_of_absent)
  from nD have gD: "dict_get attrs ''DEFAULTS'' = None" by (simp add: dict_get_def map_of_absent)
  from out i gD have "JSON_subclass_init class_attr D S kwargs = Instance ?self attrs"
    by (simp add: JSON_subclass_init_def JSONSidecar_init_def Let_def)
  moreover from gd have "instance_data ?self attrs = PDict (data ?self)"
    by (simp add: instance_data_def)
  moreover from dS have "dict_get (data ?self) k =
             (if k \<in> set excluded_fields then None
              else (case dict_get S k of Some v \<Rightarrow> Some v | None \<Rightarrow> dict_get D k))"
    using merge_lookup [of S D k] by (simp add: dict_get_def map_of_filter_keys)
  ultimately show "\<exists>self attrs. JSON_subclass_init class_attr D S kwargs = Instance self attrs
         \<and> instance_data self attrs = PDict (data self)
         \<and> dict_get (data self) k =
             (if k \<in> set excluded_fields then None
              else (case dict_get S k of Some v \<Rightarrow> Some v | None \<Rightarrow> dict_get D k))"
    by blast
next
  let ?f = "filter (\<lambda>(k, v). k \<notin> set named_parameters)"
  assume h: "distinct (keys dkwargs) \<and> dict_get dkwargs ''data'' = Some v \<and> sized v
      \<and> list_all (\<lambda>k. k \<notin> set [''self'', ''fields'', ''log'', ''DEFAULTS'']
                      \<and> (class_attr k = NoAttribute \<or> class_attr k = Attribute)) (keys dkwargs)"
  then have dk: "distinct (keys dkwargs)" and gv: "dict_get dkwargs ''data'' = Some v" and sv: "sized v"
    and names: "list_all (\<lambda>k. k \<notin> set [''self'', ''fields'', ''log'', ''DEFAULTS'']) (keys dkwargs)"
    and acc: "list_all (\<lambda>k. class_attr k = NoAttribute \<or> class_attr k = Attribute) (keys dkwargs)"
    by (simp_all add: list_all_iff)
  from names have out: "''self'' \<notin> set (keys dkwargs)" "''fields'' \<notin> set (keys dkwargs)"
    "''log'' \<notin> set (keys dkwargs)" "''DEFAULTS'' \<notin> set (keys dkwargs)"
    by (auto simp: list_all_iff)
  have sub: "set (keys (?f dkwargs)) \<subseteq> set (keys dkwargs)" by (rule keys_filter_subset)
  from out sub have log: "''log'' \<notin> set (keys (?f dkwargs))" by blast
  have np: "''data'' \<notin> set named_parameters" by (simp add: named_parameters_def)
  from map_of_rev_filter_other [OF dk np] gv
  have md: "map_of (rev (?f dkwargs)) ''data'' = Some v" by (simp add: dict_get_def)
  with sv have dat: "case map_of (rev (?f dkwargs)) ''data'' of Some v \<Rightarrow> sized v | None \<Rightarrow> True"
    by simp
  from Sidecar_init_accepted [OF list_all_keys_filter [OF acc] log dat, of "dict_merge D S"]
  obtain ps attrs where
    i: "Sidecar_init class_attr (dict_merge D S) (?f dkwargs)
          = Instance \<lparr>paths = ps, data = filter (\<lambda>(k, v). k \<notin> set excluded_fields) (dict_merge D S)\<rparr> attrs"
    and s: "set (keys attrs) \<subseteq> set (keys (?f dkwargs))"
    and m: "map_of attrs ''data'' = map_of (rev (?f dkwargs)) ''data''"
    by blast
  let ?self = "\<lparr>paths = ps, data = filter (\<lambda>(k, v). k \<notin> set excluded_fields) (dict_merge D S)\<rparr>"
  from s sub out have nD: "''DEFAULTS'' \<notin> set (keys attrs)" by blast
  then have gD: "dict_get attrs ''DEFAULTS'' = None" by (simp add: dict_get_def map_of_absent)
  from out i gD have "JSON_subclass_init class_attr D S dkwargs = Instance ?self attrs"
    by (simp add: JSON_subclass_init_def JSONSidecar_init_def Let_def)
  moreover from m md have "instance_data ?self attrs = v"
    by (simp add: instance_data_def dict_get_def)
  ultimately show "\<exists>self attrs. JSON_subclass_init class_attr D S dkwargs = Instance self attrs
         \<and> instance_data self attrs = v"
    by blast
next
  let ?f = "filter (\<lambda>(k, v). k \<notin> set named_parameters)"
  assume h: "i < length given_rows \<and> distinct (keys (given_rows ! i))
      \<and> list_all (\<lambda>k. k \<notin> set [''self'', ''fields'', ''rows'', ''data'', ''log'', ''ROW_DEFAULTS'']
                      \<and> (class_attr k = NoAttribute \<or> class_attr k = Attribute)) (keys tkwargs)"
  then have il: "i < length given_rows" and dr: "distinct (keys (given_rows ! i))"
    and names: "list_all (\<lambda>k. k \<notin> set [''self'', ''fields'', ''rows'', ''data'', ''log'', ''ROW_DEFAULTS''])
                  (keys tkwargs)"
    and acc: "list_all (\<lambda>k. class_attr k = NoAttribute \<or> class_attr k = Attribute) (keys tkwargs)"
    by (simp_all add: list_all_iff)
  from names have out: "''self'' \<notin> set (keys tkwargs)" "''fields'' \<notin> set (keys tkwargs)"
    "''rows'' \<notin> set (keys tkwargs)" "''data'' \<notin> set (keys tkwargs)" "''log'' \<notin> set (keys tkwargs)"
    "''ROW_DEFAULTS'' \<notin> set (keys tkwargs)"
    by (auto simp: list_all_iff)
  have sub: "set (keys (?f tkwargs)) \<subseteq> set (keys tkwargs)" by (rule keys_filter_subset)
  from out sub have log: "''log'' \<notin> set (keys (?f tkwargs))" by blast
  from out sub have "''data'' \<notin> set (keys (?f tkwargs))" by blast
  then have "map_of (rev (?f tkwargs)) ''data'' = None"
    by (simp add: keys_def map_of_eq_None_iff)
  then have dat: "case map_of (rev (?f tkwargs)) ''data'' of Some v \<Rightarrow> sized v | None \<Rightarrow> True"
    by simp
  from Sidecar_init_accepted [OF list_all_keys_filter [OF acc] log dat, of "[]"]
  obtain ps attrs where
    i: "Sidecar_init class_attr [] (?f tkwargs) = Instance \<lparr>paths = ps, data = []\<rparr> attrs"
    and s: "set (keys attrs) \<subseteq> set (keys (?f tkwargs))"
    by auto
  let ?self = "\<lparr>paths = ps, data = [], rows = map (\<lambda>row. dict_merge D row) given_rows\<rparr>"
  from s sub out have "''ROW_DEFAULTS'' \<notin> set (keys attrs)" by blast
  then have gD: "dict_get attrs ''ROW_DEFAULTS'' = None" by (simp add: dict_get_def map_of_absent)
  from out i gD have "TSV_subclass_init class_attr D prints_defaults given_rows tkwargs = Instance ?self attrs"
    by (simp add: TSV_subclass_init_def TSVSidecar_init_def Let_def)
  moreover have "length (rows ?self) = length given_rows" by simp
  moreover from il dr have "dict_get (rows ?self ! i) k =
             (case dict_get (given_rows ! i) k of Some v \<Rightarrow> Some v | None \<Rightarrow> dict_get D k)"
    by (simp add: merge_lookup)
  ultimately show "\<exists>self attrs. TSV_subclass_init class_attr D prints_defaults given_rows tkwargs = Instance self attrs
         \<and> length (rows self) = length given_rows
         \<and> dict_get (rows self ! i) k =
             (case dict_get (given_rows ! i) k of Some v \<Rightarrow> Some v | None \<Rightarrow> dict_get D k)"
    by blast
next
  assume "distinct (keys row)"
  then show "\<exists>merged_row. rows (add_row D tself row) = rows tself @ [merged_row]
           \<and> dict_get merged_row k =
               (case dict_get row k of Some v \<Rightarrow> Some v | None \<Rightarrow> dict_get D k)"
    by (simp add: add_row_def Let_def merge_lookup)
qed

theorem default_merge_semantics_witness:
  "(\<exists>self attrs. JSON_subclass_init JSON_subclass_attr CoordSystem_DEFAULTS
         [(''iEEGCoordinateSystem'', PStr ''Other''), (''output_dir'', PStr ''out'')]
         [(''output_dir'', PStr ''out''), (''schema'', PNone), (''json_indent'', PInt 2), (''colour'', PInt 1)]
       = Instance self attrs
       \<and> instance_data self attrs = PDict (data self)
       \<and> dict_get (data self) ''iEEGCoordinateSystem'' = Some (PStr ''Other'')
       \<and> dict_get (data self) ''iEEGCoordinateUnits'' = Some (PStr ''mm'')
       \<and> dict_get (data self) ''output_dir'' = None)
   \<and> (\<exists>self attrs. JSON_subclass_init JSON_subclass_attr CoordSystem_DEFAULTS
         [(''iEEGCoordinateSystem'', PStr ''Other'')] [(''data'', PDict [(''a'', PInt 1)])]
       = Instance self attrs
       \<and> instance_data self attrs = PDict [(''a'', PInt 1)])
   \<and> (\<exists>self attrs. TSV_subclass_init TSV_subclass_attr Events_ROW_DEFAULTS False
         [[(''onset'', PInt 3)]] [(''output_dir'', PStr ''out'')] = Instance self attrs
       \<and> length (rows self) = 1
       \<and> dict_get (rows self ! 0) ''duration'' = Some (PStr ''n/a''))
   \<and> (\<exists>merged_row. rows (add_row Events_ROW_DEFAULTS
                          \<lparr>paths = default_paths, data = [], rows = []\<rparr> [(''onset'', PInt 3)])
                       = [] @ [merged_row]
         \<and> dict_get merged_row ''onset'' = Some (PInt 3))"
proof -
  let ?S = "[(''iEEGCoordinateSystem'', PStr ''Other''), (''output_dir'', PStr ''out'')]"
  let ?kw = "[(''output_dir'', PStr ''out''), (''schema'', PNone), (''json_indent'', PInt 2),
              (''colour'', PInt 1)]"
  let ?dkw = "[(''data'', PDict [(''a'', PInt 1)])]"
  let ?tkw = "[(''output_dir'', PStr ''out'')]"
  have hS: "distinct (keys ?S)
      \<and> list_all (\<lambda>k. k \<notin> set [''self'', ''fields'', ''data'', ''log'', ''DEFAULTS'']
                      \<and> (JSON_subclass_attr k = NoAttribute \<or> JSON_subclass_attr k = Attribute)) (keys ?kw)"
    by (simp add: keys_def JSON_subclass_attr_def JSONSidecar_attr_def Sidecar_attr_def object_attr_def)
  have hD: "distinct (keys ?dkw) \<and> dict_get ?dkw ''data'' = Some (PDict [(''a'', PInt 1)])
      \<and> sized (PDict [(''a'', PInt 1)])
      \<and> list_all (\<lambda>k. k \<notin> set [''self'', ''fields'', ''log'', ''DEFAULTS'']
                      \<and> (JSON_subclass_attr k = NoAttribute \<or> JSON_subclass_attr k = Attribute)) (keys ?dkw)"
    by (simp add: keys_def dict_get_def JSON_subclass_attr_def JSONSidecar_attr_def Sidecar_attr_def
        object_attr_def)
  have hR: "0 < length [[(''onset'', PInt 3)]] \<and> distinct (keys ([[(''onset'', PInt 3)]] ! 0))
      \<and> list_all (\<lambda>k. k \<notin> set [''self'', ''fields'', ''rows'', ''data'', ''log'', ''ROW_DEFAULTS'']
                      \<and> (TSV_subclass_attr k = NoAttribute \<or> TSV_subclass_attr k = Attribute)) (keys ?tkw)"
    by (simp add: keys_def TSV_subclass_attr_def TSVSidecar_attr_def Sidecar_attr_def object_attr_def)
  have hr: "distinct (keys [(''onset'', PInt 3)])" by (simp add: keys_def)
  note J = default_merge_semantics [where S = ?S and D = CoordSystem_DEFAULTS and kwargs = ?kw
      and class_attr = JSON_subclass_attr, THEN conjunct1, rule_format, OF hS]
  from J [where k = "''iEEGCoordinateSystem''"] J [where k = "''iEEGCoordinateUnits''"]
       J [where k = "''output_dir''"]
  have a: "\<exists>self attrs. JSON_subclass_init JSON_subclass_attr CoordSystem_DEFAULTS ?S ?kw = Instance self attrs
       \<and> instance_data self attrs = PDict (data self)
       \<and> dict_get (data self) ''iEEGCoordinateSystem'' = Some (PStr ''Other'')
       \<and> dict_get (data self) ''iEEGCoordinateUnits'' = Some (PStr ''mm'')
       \<and> dict_get (data self) ''output_dir'' = None"
    by (auto simp: dict_get_def excluded_fields_def CoordSystem_DEFAULTS_def)
  from default_merge_semantics [where dkwargs = ?dkw and D = CoordSystem_DEFAULTS
      and S = "[(''iEEGCoordinateSystem'', PStr ''Other'')]" and v = "PDict [(''a'', PInt 1)]"
      and class_attr = JSON_subclass_attr, THEN conjunct2, THEN conjunct1, rule_format, OF hD]
  have b: "\<exists>self attrs. JSON_subclass_init JSON_subclass_attr CoordSystem_DEFAULTS
         [(''iEEGCoordinateSystem'', PStr ''Other'')] ?dkw = Instance self attrs
       \<and> instance_data self attrs = PDict [(''a'', PInt 1)]" .
  from default_merge_semantics [where given_rows = "[[(''onset'', PInt 3)]]" and i = 0
      and D = Events_ROW_DEFAULTS and tkwargs = ?tkw and k = "''duration''"
      and class_attr = TSV_subclass_attr and prints_defaults = False,
      THEN conjunct2, THEN conjunct2, THEN conjunct1, rule_format, OF hR]
  have c: "\<exists>self attrs. TSV_subclass_init TSV_subclass_attr Events_ROW_DEFAULTS False
         [[(''onset'', PInt 3)]] ?tkw = Instance self attrs
       \<and> length (rows self) = 1
       \<and> dict_get (rows self ! 0) ''duration'' = Some (PStr ''n/a'')"
    by (simp add: dict_get_def Events_ROW_DEFAULTS_def)
  from default_merge_semantics [where row = "[(''onset'', PInt 3)]" and D = Events_ROW_DEFAULTS
      and tself = "\<lparr>paths = default_paths, data = [], rows = []\<rparr>" and k = "''onset''",
      THEN conjunct2, THEN conjunct2, THEN conjunct2, rule_format, OF hr]
  have d: "\<exists>merged_row. rows (add_row Events_ROW_DEFAULTS
                          \<lparr>paths = default_paths, data = [], rows = []\<rparr> [(''onset'', PInt 3)])
                       = [] @ [merged_row]
         \<and> dict_get merged_row ''onset'' = Some (PInt 3)"
    by (simp add: dict_get_def)
  from a b c d show ?thesis by blast
qed

text \<open>
  The claim as stated fails in two ways. A path key that is supplied in the fields is absent
  from the record; and \<open>CoordSystemSidecar(S, data={})\<close> has the empty record, whatever \<open>S\<close>
  and the defaults hold.
\<close>

theorem excluded_key_counterexample:
  "dict_get [(''output_dir'', PStr ''out'')] ''output_dir'' = Some (PStr ''out'')
   \<and> (\<exists>self. CoordSystemSidecar_init [(''output_dir'', PStr ''out'')] [] = Instance self []
         \<and> instance_data self [] = PDict (data self)
         \<and> dict_get (data self) ''output_dir'' = None)
   \<and> (\<exists>self. CoordSystemSidecar_init [(''iEEGCoordinateSystem'', PStr ''Other'')] [(''data'', PDict [])]
                = Instance self [(''data'', PDict [])]
         \<and> instance_data self [(''data'', PDict [])] = PDict [])"
  by (simp add: dict_get_def CoordSystemSidecar_init_def JSON_subclass_init_def JSONSidecar_init_def
      Sidecar_init_def dict_merge_def CoordSystem_DEFAULTS_def excluded_fields_def keys_def
      named_parameters_def hasattr_def instance_data_def JSON_subclass_attr_def JSONSidecar_attr_def
      Sidecar_attr_def object_attr_def)

lemma numeric_cell_returns:
  "no_overflow cols rws \<Longrightarrow> row \<in> set rws \<Longrightarrow> field \<in> set cols
   \<Longrightarrow> \<exists>ms. numeric_cell i field row = Inr ms"
proof (cases "dict_get row field")
  case None
  then show ?thesis by (simp add: numeric_cell_def)
next
  case (Some val)
  assume "no_overflow cols rws" "row \<in> set rws" "field \<in> set cols"
  with Some have "float_of val \<noteq> FloatOverflowError"
    by (fastforce simp: no_overflow_def list_all_iff)
  with Some show ?thesis by (simp add: numeric_cell_def split: float_outcome.splits)
qed

lemma numeric_cell_flags:
  "dict_get row field = Some val \<Longrightarrow> val \<notin> set [PNone, PStr ''n/a'', PStr ''N/A'']
   \<Longrightarrow> float_of val = FloatTypeError \<or> float_of val = FloatValueError
   \<Longrightarrow> numeric_cell i field row = Inr [NotNumeric (i + 1) field val]"
  by (auto simp: numeric_cell_def)

lemma collect_all_Inr:
  "\<forall>x\<in>set xs. \<exists>ms. x = Inr ms \<Longrightarrow>
   \<exists>ms. collect xs = Inr ms \<and> set ms = (\<Union>x\<in>set xs. set (projr x))"
proof (induction xs)
  case Nil
  show ?case by simp
next
  case (Cons x xs)
  from Cons.prems obtain m where x: "x = Inr m" by auto
  from Cons obtain ms where "collect xs = Inr ms" "set ms = (\<Union>x\<in>set xs. set (projr x))" by auto
  with x show ?case by simp
qed

lemma enumerate_rows_nth: "i < length xs \<Longrightarrow> (i, xs ! i) \<in> set (enumerate_rows xs)"
  unfolding enumerate_rows_def by (auto simp: in_set_zip intro!: exI [of _ i])

lemma enumerate_rows_mem: "(i, x) \<in> set (enumerate_rows xs) \<Longrightarrow> x \<in> set xs"
  unfolding enumerate_rows_def by (auto dest: set_zip_rightD)

lemma field_major_pass:
  assumes "no_overflow cols rws"
  shows "\<exists>ms. collect (concat (map (\<lambda>field. map (\<lambda>(i, row). numeric_cell i field row)
                                              (enumerate_rows rws)) cols)) = Inr ms
           \<and> (\<forall>i field. i < length rws \<and> field \<in> set cols
                 \<longrightarrow> set (projr (numeric_cell i field (rws ! i))) \<subseteq> set ms)"
proof -
  let ?cells = "concat (map (\<lambda>field. map (\<lambda>(i, row). numeric_cell i field row)
                                              (enumerate_rows rws)) cols)"
  have "\<forall>x\<in>set ?cells. \<exists>ms. x = Inr ms"
    using assms by (auto dest!: enumerate_rows_mem intro: numeric_cell_returns)
  from collect_all_Inr [OF this] obtain ms where
    ms: "collect ?cells = Inr ms" "set ms = (\<Union>x\<in>set ?cells. set (projr x))" by blast
  have "numeric_cell i field (rws ! i) \<in> set ?cells" if "i < length rws" "field \<in> set cols"
    for i field
    using that enumerate_rows_nth [of i rws] by (auto intro!: bexI [of _ field] image_eqI [of _ _ "(i, rws ! i)"])
  with ms show ?thesis by blast
qed

lemma row_major_pass:
  assumes "no_overflow cols rws"
  shows "\<exists>ms. collect (concat (map (\<lambda>(i, row). map (\<lambda>field. numeric_cell i field row) cols)
                                  (enumerate_rows rws))) = Inr ms
           \<and> (\<forall>i field. i < length rws \<and> field \<in> set cols
                 \<longrightarrow> set (projr (numeric_cell i field (rws ! i))) \<subseteq> set ms)"
proof -
  let ?cells = "concat (map (\<lambda>(i, row). map (\<lambda>field. numeric_cell i field row) cols)
                                  (enumerate_rows rws))"
  have "\<forall>x\<in>set ?cells. \<exists>ms. x = Inr ms"
    using assms by (auto dest!: enumerate_rows_mem intro: numeric_cell_returns)
  from collect_all_Inr [OF this] obtain ms where
    ms: "collect ?cells = Inr ms" "set ms = (\<Union>x\<in>set ?cells. set (projr x))" by blast
  have "numeric_cell i field (rws ! i) \<in> set ?cells" if "i < length rws" "field \<in> set cols"
    for i field
    using that enumerate_rows_nth [of i rws] by (auto intro!: bexI [of _ "(i, rws ! i)"])
  with ms show ?thesis by blast
qed

text \<open>
  Claim C6, as the code has it. In a non-empty row list, a value of a numeric column that
  is not \<open>None\<close>, \<open>"n/a"\<close> or \<open>"N/A"\<close> and for which \<open>float\<close> raises \<open>TypeError\<close> or
  \<open>ValueError\<close> gives a warning in the channels sidecar, whose validation still passes when
  no required column is missing, and gives an error in the electrodes sidecar and in the
  events sidecar, whose validation then fails. This is for a row list in which no numeric
  cell holds an integer too large for a float: on such a cell \<open>float\<close> raises
  \<open>OverflowError\<close>, which \<open>validate\<close> does not catch.
\<close>

theorem numeric_validation_severity:
  assumes "i < length rws"
    and "dict_get (rws ! i) field = Some val"
    and "val \<notin> set [PNone, PStr ''n/a'', PStr ''N/A'']"
    and "float_of val = FloatTypeError \<or> float_of val = FloatValueError"
  shows "(field \<in> set Channels_numeric_fields \<and> no_overflow Channels_numeric_fields rws \<longrightarrow>
           (\<exists>ok rep. ChannelsSidecar_validate self (Some (DataRows rws)) = Inr (ok, rep)
              \<and> NotNumeric (i + 1) field val \<in> set (warnings rep)
              \<and> NotNumeric (i + 1) field val \<notin> set (errors rep)
              \<and> ok = (sorted_minus Channels_REQUIRED_FIELDS (all_fields_of rws) = [])))
       \<and> (field \<in> set Electrodes_numeric_fields \<and> no_overflow Electrodes_numeric_fields rws \<longrightarrow>
           (\<exists>rep. ElectrodesSidecar_validate self (Some (DataRows rws)) = Inr (False, rep)
              \<and> NotNumeric (i + 1) field val \<in> set (errors rep)))
       \<and> (field \<in> set Events_numeric_fields \<and> no_overflow Events_numeric_fields rws \<longrightarrow>
           (\<exists>rep. EventsSidecar_validate self (Some (DataRows rws)) = Inr (False, rep)
              \<and> NotNumeric (i + 1) field val \<in> set (errors rep)))"
proof -
  from assms(1) obtain r rs where rws: "rws = r # rs" by (cases rws) auto
  have cell: "numeric_cell i field (rws ! i) = Inr [NotNumeric (i + 1) field val]"
    using assms(2-4) by (rule numeric_cell_flags)
  show ?thesis
  proof (intro conjI impI)
    assume h: "field \<in> set Channels_numeric_fields \<and> no_overflow Channels_numeric_fields rws"
    from field_major_pass [of Channels_numeric_fields rws] h obtain ms where
      ms: "collect (concat (map (\<lambda>field. map (\<lambda>(i, row). numeric_cell i field row)
                                              (enumerate_rows rws)) Channels_numeric_fields)) = Inr ms"
      and sub: "set (projr (numeric_cell i field (rws ! i))) \<subseteq> set ms"
      using assms(1) by blast
    from sub cell have "NotNumeric (i + 1) field val \<in> set ms" by simp
    with ms show "\<exists>ok rep. ChannelsSidecar_validate self (Some (DataRows rws)) = Inr (ok, rep)
              \<and> NotNumeric (i + 1) field val \<in> set (warnings rep)
              \<and> NotNumeric (i + 1) field val \<notin> set (errors rep)
              \<and> ok = (sorted_minus Channels_REQUIRED_FIELDS (all_fields_of rws) = [])"
      unfolding rws by (simp add: ChannelsSidecar_validate_def Let_def)
  next
    assume h: "field \<in> set Electrodes_numeric_fields \<and> no_overflow Electrodes_numeric_fields rws"
    from row_major_pass [of Electrodes_numeric_fields rws] h obtain ms where
      ms: "collect (concat (map (\<lambda>(i, row). map (\<lambda>field. numeric_cell i field row)
                                      Electrodes_numeric_fields) (enumerate_rows rws))) = Inr ms"
      and sub: "set (projr (numeric_cell i field (rws ! i))) \<subseteq> set ms"
      using assms(1) by blast
    from sub cell have "NotNumeric (i + 1) field val \<in> set ms" by simp
    with ms show "\<exists>rep. ElectrodesSidecar_validate self (Some (DataRows rws)) = Inr (False, rep)
              \<and> NotNumeric (i + 1) field val \<in> set (errors rep)"
      unfolding rws by (auto simp: ElectrodesSidecar_validate_def Let_def)
  next
    assume h: "field \<in> set Events_numeric_fields \<and> no_overflow Events_numeric_fields rws"
    from row_major_pass [of Events_numeric_fields rws] h obtain ms where
      ms: "collect (concat (map (\<lambda>(i, row). map (\<lambda>field. numeric_cell i field row)
                                      Events_numeric_fields) (enumerate_rows rws))) = Inr ms"
      and sub: "set (projr (numeric_cell i field (rws ! i))) \<subseteq> set ms"
      using assms(1) by blast
    from sub cell have "NotNumeric (i + 1) field val \<in> set ms" by simp
    with ms show "\<exists>rep. EventsSidecar_validate self (Some (DataRows rws)) = Inr (False, rep)
              \<and> NotNumeric (i + 1) field val \<in> set (errors rep)"
      unfolding rws by (auto simp: EventsSidecar_validate_def Let_def)
  qed
qed

theorem numeric_validation_severity_witness:
  "(\<exists>self. ChannelsSidecar_init [] [] = Instance self []
      \<and> (\<exists>rep. ChannelsSidecar_validate self
                  (Some (DataRows [dict_merge Channels_ROW_DEFAULTS sample_channel_row])) = Inr (True, rep)
            \<and> NotNumeric 1 ''high_cutoff'' (PStr ''fast'') \<in> set (warnings rep)))
   \<and> (\<exists>self. ElectrodesSidecar_init [] [] = Instance self []
      \<and> (\<exists>rep. ElectrodesSidecar_validate self
                  (Some (DataRows [dict_merge Electrodes_ROW_DEFAULTS sample_electrode_row])) = Inr (False, rep)
            \<and> NotNumeric 1 ''x'' (PStr ''left'') \<in> set (errors rep)))
   \<and> (\<exists>self. EventsSidecar_init [] [] = Instance self []
      \<and> (\<exists>rep. EventsSidecar_validate self
                  (Some (DataRows [dict_merge Events_ROW_DEFAULTS sample_event_row])) = Inr (False, rep)
            \<and> NotNumeric 1 ''onset'' (PStr ''start'') \<in> set (errors rep)))"
proof -
  let ?self = "\<lparr>paths = default_paths, data = [], rows = []\<rparr>"
  let ?c = "[dict_merge Channels_ROW_DEFAULTS sample_channel_row]"
  let ?e = "[dict_merge Electrodes_ROW_DEFAULTS sample_electrode_row]"
  let ?v = "[dict_merge Events_ROW_DEFAULTS sample_event_row]"
  have ci: "ChannelsSidecar_init [] [] = Instance ?self []" by code_simp
  have ei: "ElectrodesSidecar_init [] [] = Instance ?self []" by code_simp
  have vi: "EventsSidecar_init [] [] = Instance ?self []" by code_simp
  have c1: "dict_get (?c ! 0) ''high_cutoff'' = Some (PStr ''fast'')" by code_simp
  have c2: "PStr ''fast'' \<notin> set [PNone, PStr ''n/a'', PStr ''N/A'']" by simp
  have c3: "float_of (PStr ''fast'') = FloatTypeError \<or> float_of (PStr ''fast'') = FloatValueError"
    by code_simp
  have c4: "''high_cutoff'' \<in> set Channels_numeric_fields \<and> no_overflow Channels_numeric_fields ?c"
    by code_simp
  have c5: "sorted_minus Channels_REQUIRED_FIELDS (all_fields_of ?c) = []" by code_simp
  have e1: "dict_get (?e ! 0) ''x'' = Some (PStr ''left'')" by code_simp
  have e2: "PStr ''left'' \<notin> set [PNone, PStr ''n/a'', PStr ''N/A'']" by simp
  have e3: "float_of (PStr ''left'') = FloatTypeError \<or> float_of (PStr ''left'') = FloatValueError"
    by code_simp
  have e4: "''x'' \<in> set Electrodes_numeric_fields \<and> no_overflow Electrodes_numeric_fields ?e"
    by code_simp
  have v1: "dict_get (?v ! 0) ''onset'' = Some (PStr ''start'')" by code_simp
  have v2: "PStr ''start'' \<notin> set [PNone, PStr ''n/a'', PStr ''N/A'']" by simp
  have v3: "float_of (PStr ''start'') = FloatTypeError \<or> float_of (PStr ''start'') = FloatValueError"
    by code_simp
  have v4: "''onset'' \<in> set Events_numeric_fields \<and> no_overflow Events_numeric_fields ?v"
    by code_simp
  have l: "(0::nat) < length [x]" for x :: pydict by simp
  from numeric_validation_severity [OF l c1 c2 c3, THEN conjunct1, rule_format, OF c4, of ?self] c5
  have a: "\<exists>rep. ChannelsSidecar_validate ?self (Some (DataRows ?c)) = Inr (True, rep)
          \<and> NotNumeric 1 ''high_cutoff'' (PStr ''fast'') \<in> set (warnings rep)"
    by auto
  from numeric_validation_severity [OF l e1 e2 e3, THEN conjunct2, THEN conjunct1, rule_format, OF e4,
      of ?self]
  have b: "\<exists>rep. ElectrodesSidecar_validate ?self (Some (DataRows ?e)) = Inr (False, rep)
          \<and> NotNumeric 1 ''x'' (PStr ''left'') \<in> set (errors rep)"
    by auto
  from numeric_validation_severity [OF l v1 v2 v3, THEN conjunct2, THEN conjunct2, rule_format, OF v4,
      of ?self]
  have c: "\<exists>rep. EventsSidecar_validate ?self (Some (DataRows ?v)) = Inr (False, rep)
          \<and> NotNumeric 1 ''onset'' (PStr ''start'') \<in> set (errors rep)"
    by auto
  from a ci have a': "\<exists>self. ChannelsSidecar_init [] [] = Instance self []
      \<and> (\<exists>rep. ChannelsSidecar_validate self (Some (DataRows ?c)) = Inr (True, rep)
            \<and> NotNumeric 1 ''high_cutoff'' (PStr ''fast'') \<in> set (warnings rep))"
    by blast
  from b ei have b': "\<exists>self. ElectrodesSidecar_init [] [] = Instance self []
      \<and> (\<exists>rep. ElectrodesSidecar_validate self (Some (DataRows ?e)) = Inr (False, rep)
            \<and> NotNumeric 1 ''x'' (PStr ''left'') \<in> set (errors rep))"
    by blast
  from c vi have c': "\<exists>self. EventsSidecar_init [] [] = Instance self []
      \<and> (\<exists>rep. EventsSidecar_validate self (Some (DataRows ?v)) = Inr (False, rep)
            \<and> NotNumeric 1 ''onset'' (PStr ''start'') \<in> set (errors rep))"
    by blast
  from a' b' c' show ?thesis by blast
qed

text \<open>
  The claim as stated fails for the events sidecar: a non-numeric onset is an error there,
  and validation fails although both required columns are present.
\<close>

theorem events_numeric_counterexample:
  "\<exists>self. EventsSidecar_init [sample_event_row] [] = Instance self []
     \<and> EventsSidecar_validate self None =
         Inr (False, \<lparr>errors = [NotNumeric 1 ''onset'' (PStr ''start'')], warnings = [],
                      columns = Some [''duration'', ''onset'', ''trial_type'']\<rparr>)"
proof -
  let ?self = "\<lparr>paths = default_paths, data = [],
                rows = [[(''duration'', PStr ''n/a''), (''trial_type'', PStr ''n/a''),
                         (''onset'', PStr ''start'')]]\<rparr>"
  have i: "EventsSidecar_init [sample_event_row] [] = Instance ?self []" by code_simp
  have v: "EventsSidecar_validate ?self None =
         Inr (False, \<lparr>errors = [NotNumeric 1 ''onset'' (PStr ''start'')], warnings = [],
                      columns = Some [''duration'', ''onset'', ''trial_type'']\<rparr>)"
    by code_simp
  from i v show ?thesis by blast
qed

lemma dirname_nonempty:
  assumes "CHR ''/'' \<in> set p"
  shows "os_path_dirname p \<noteq> []"
proof -
  from rfind_last [OF assms] obtain u t where
    p: "p = u @ CHR ''/'' # t" and r: "rfind CHR ''/'' p = int (length u)" by blast
  let ?head = "take (nat (rfind CHR ''/'' p + 1)) p"
  have "nat (rfind CHR ''/'' p + 1) = Suc (length u)" using r by simp
  then have head: "?head = u @ [CHR ''/'']" using p by simp
  have ne: "?head \<noteq> []" using head by simp
  have unfold: "os_path_dirname p =
      (if ?head \<noteq> [] \<and> ?head \<noteq> replicate (length ?head) CHR ''/''
       then rev (dropWhile (\<lambda>c. c = CHR ''/'') (rev ?head)) else ?head)"
    by (simp only: os_path_dirname_def Let_def)
  show ?thesis
  proof (cases "?head = replicate (length ?head) CHR ''/''")
    case True
    then have "os_path_dirname p = ?head" using unfold by metis
    with ne show ?thesis by metis
  next
    case False
    then have "\<not> (\<forall>c\<in>set ?head. c = CHR ''/'')"
      using replicate_length_same [of ?head "CHR ''/''"] by metis
    then have "dropWhile (\<lambda>c. c = CHR ''/'') (rev ?head) \<noteq> []"
      by (simp only: dropWhile_eq_Nil_conv set_rev) blast
    then have "rev (dropWhile (\<lambda>c. c = CHR ''/'') (rev ?head)) \<noteq> []" by (simp only: rev_is_Nil_conv) blast
    moreover have "os_path_dirname p = rev (dropWhile (\<lambda>c. c = CHR ''/'') (rev ?head))"
      using unfold ne False by metis
    ultimately show ?thesis by metis
  qed
qed

lemma join_has_slash: "a \<noteq> [] \<Longrightarrow> CHR ''/'' \<in> set (os_path_join a b)"
proof -
  assume a: "a \<noteq> []"
  show ?thesis
  proof (cases "startswith b ''/''")
    case True
    then have "b \<noteq> []" and "hd b = CHR ''/''" by (cases b; simp add: startswith_def)+
    then have "CHR ''/'' \<in> set b" by (cases b) auto
    with True show ?thesis by (simp add: os_path_join_def)
  next
    case False
    show ?thesis
    proof (cases "endswith a ''/''")
      case True
      then have "drop (length a - 1) a = ''/''" by (simp add: endswith_def)
      then have "CHR ''/'' \<in> set (drop (length a - 1) a)" by simp
      then have "CHR ''/'' \<in> set a" by (rule in_set_dropD)
      with False True show ?thesis by (simp add: os_path_join_def)
    next
      case no: False
      with False a show ?thesis by (simp add: os_path_join_def)
    qed
  qed
qed

lemma save_path_dirname: "makedirs (os_path_dirname (save_path kwargs filename)) = None"
proof -
  have "CHR ''/'' \<in> set (save_path kwargs filename)"
    unfolding save_path_def Let_def by (rule join_has_slash) (auto split: option.splits)
  then show ?thesis by (simp add: makedirs_def dirname_nonempty)
qed

lemma writerows_all:
  "list_all (\<lambda>row. list_all (\<lambda>k. k \<in> set fieldnames) (keys row)) d
   \<Longrightarrow> writerows fieldnames d = (map (cells fieldnames) d, None)"
  by (induction d) (auto simp: dict_to_list_def)

lemma set_sorted_minus: "set (sorted_minus a b) = set a - set b"
  by (auto simp: sorted_minus_def)

lemma sorted_sorted_minus: "sorted (sorted_minus a b)"
  by (simp add: sorted_minus_def)

lemma distinct_sorted_minus: "distinct (sorted_minus a b)"
  by (simp add: sorted_minus_def)

lemma set_all_fields_of: "set (all_fields_of d) = (\<Union>row\<in>set d. set (keys row))"
  by (simp add: all_fields_of_def)

lemma Channels_fieldnames_set:
  "d \<noteq> [] \<Longrightarrow> set (Channels_fieldnames d) = (\<Union>row\<in>set d. set (keys row))"
  by (auto simp: Channels_fieldnames_def Let_def set_sorted_minus set_all_fields_of)

lemma Channels_fieldnames_distinct: "distinct (Channels_fieldnames d)"
proof -
  have "distinct Channels_COLUMN_ORDER" by (simp add: Channels_COLUMN_ORDER_def)
  then show ?thesis
    by (auto simp: Channels_fieldnames_def Let_def distinct_sorted_minus set_sorted_minus)
qed

lemma Channels_writerows:
  "writerows (Channels_fieldnames d) d = (map (cells (Channels_fieldnames d)) d, None)"
proof (cases "d = []")
  case True
  then show ?thesis by simp
next
  case False
  have "list_all (\<lambda>row. list_all (\<lambda>k. k \<in> set (Channels_fieldnames d)) (keys row)) d"
    using Channels_fieldnames_set [OF False] by (auto simp: list_all_iff)
  then show ?thesis by (rule writerows_all)
qed

lemma ChannelsSidecar_validate_returns:
  assumes "no_overflow Channels_numeric_fields d"
  shows "\<exists>ok rep. ChannelsSidecar_validate self (Some (DataRows d)) = Inr (ok, rep)"
proof (cases d)
  case Nil
  then have "ChannelsSidecar_validate self (Some (DataRows d)) = Inr not_a_list"
    by (simp add: ChannelsSidecar_validate_def)
  then show ?thesis by (cases not_a_list) auto
next
  case (Cons r rs)
  from field_major_pass [OF assms] obtain ms where
    "collect (concat (map (\<lambda>field. map (\<lambda>(i, row). numeric_cell i field row)
                                              (enumerate_rows d)) Channels_numeric_fields)) = Inr ms"
    by blast
  then show ?thesis unfolding Cons by (simp add: ChannelsSidecar_validate_def Let_def)
qed

lemma save_validation_returns:
  "validate d = Inr (ok, rep)
   \<Longrightarrow> \<exists>w1. save_validation validate d requested w = Inr w1 \<and> files w1 = files w"
  by (simp add: save_validation_def)


lemma ChannelsSidecar_save_writes:
  assumes "save_validation (\<lambda>d. ChannelsSidecar_validate self (Some (DataRows d))) d (sv_validate kwargs) w
           = Inr w1"
    and "d = (case sv_data kwargs of None \<Rightarrow> rows self | Some x \<Rightarrow> x)"
    and "os_path_dirname (Channels_output_path output_path kwargs) \<noteq> []"
  shows "ChannelsSidecar_save self output_path kwargs w =
           (Inr (Channels_output_path output_path kwargs),
            w1\<lparr>files := (files w1)(Channels_output_path output_path kwargs \<mapsto>
                         TSVFile (Channels_fieldnames d) (map (cells (Channels_fieldnames d)) d)),
               logged := logged w1 @ [LogInfo_Saved (Channels_output_path output_path kwargs)]\<rparr>)"
  using assms(1,3) unfolding ChannelsSidecar_save_def assms(2) [symmetric]
  by (simp add: Let_def makedirs_def Channels_writerows)

lemma TSVSidecar_write_data_rows:
  assumes "list_all (\<lambda>row. list_all (\<lambda>k. k \<in> set (keys r)) (keys row)) rs"
  shows "TSVSidecar_write_data file_path (DataRows (r # rs)) w =
           (None, w\<lparr>files := (files w)(file_path \<mapsto> TSVFile (keys r) (map (cells (keys r)) (r # rs))),
                    logged := logged w @ [LogDebug_WroteTSV file_path]\<rparr>)"
proof -
  have "list_all (\<lambda>row. list_all (\<lambda>k. k \<in> set (keys r)) (keys row)) (r # rs)"
    using assms by (simp add: list_all_iff)
  from writerows_all [OF this] show ?thesis
    by (simp add: TSVSidecar_write_data_def Let_def)
qed

lemma writerows_stops:
  "list_all (\<lambda>row. list_all (\<lambda>k. k \<in> set fieldnames) (keys row)) pre
   \<Longrightarrow> \<not> list_all (\<lambda>k. k \<in> set fieldnames) (keys bad)
   \<Longrightarrow> writerows fieldnames (pre @ bad # post) = (map (cells fieldnames) pre, Some ValueError_ExtraFields)"
  by (induction pre) (auto simp: dict_to_list_def)

lemma TSVSidecar_write_data_extra:
  assumes pre: "list_all (\<lambda>row. list_all (\<lambda>k. k \<in> set (keys r)) (keys row)) (take n rs)"
    and n: "n < length rs"
    and bad: "\<not> list_all (\<lambda>k. k \<in> set (keys r)) (keys (rs ! n))"
  shows "TSVSidecar_write_data file_path (DataRows (r # rs)) w =
           (Some ValueError_ExtraFields,
            w\<lparr>files := (files w)(file_path \<mapsto> TSVFile (keys r) (map (cells (keys r)) (r # take n rs)))\<rparr>)"
proof -
  have "list_all (\<lambda>row. list_all (\<lambda>k. k \<in> set (keys r)) (keys row)) (r # take n rs)"
    using pre by (simp add: list_all_iff)
  from writerows_stops [OF this bad, of "drop (Suc n) rs"]
  have "writerows (keys r) ((r # take n rs) @ rs ! n # drop (Suc n) rs)
          = (map (cells (keys r)) (r # take n rs), Some ValueError_ExtraFields)" .
  moreover from n have "(r # take n rs) @ rs ! n # drop (Suc n) rs = r # rs"
    by (simp add: id_take_nth_drop [symmetric])
  ultimately have "writerows (keys r) (r # rs)
          = (map (cells (keys r)) (r # take n rs), Some ValueError_ExtraFields)"
    by (simp only:)
  then show ?thesis
    by (simp add: TSVSidecar_write_data_def Let_def)
qed

text \<open>
  Claim C7, as the code has it. \<open>ChannelsSidecar.save\<close> with a non-empty row sequence, an
  output path that has a directory part and, when \<open>validate=True\<close> is passed, no numeric cell
  that holds an integer too large for a float, writes one header, the union of all rows' keys
  with the \<open>COLUMN_ORDER\<close> columns that are present first, in declared order, and the
  remaining columns after them in sorted order, and then one record per row, a missing cell
  being empty. The writer of the other TSV sidecars, \<open>TSVSidecar.write_data\<close>, takes the
  header from the first row alone, in that row's own key order, and writes one record per row
  when no later row has a key outside it. When a later row has such a key, it raises
  \<open>ValueError\<close> at the first such row, and the file then holds the header and the records
  of the rows before that one.
\<close>

theorem tsv_header_and_records:
  "(d = (case sv_data kwargs of None \<Rightarrow> rows self | Some x \<Rightarrow> x) \<and> d \<noteq> []
      \<and> (sv_validate kwargs \<longrightarrow> no_overflow Channels_numeric_fields d)
      \<and> os_path_dirname (Channels_output_path output_path kwargs) \<noteq> []
     \<longrightarrow> fst (ChannelsSidecar_save self output_path kwargs w) = Inr (Channels_output_path output_path kwargs)
         \<and> files (snd (ChannelsSidecar_save self output_path kwargs w))
              (Channels_output_path output_path kwargs)
            = Some (TSVFile (Channels_fieldnames d) (map (cells (Channels_fieldnames d)) d))
         \<and> Channels_fieldnames d =
              filter (\<lambda>c. c \<in> (\<Union>row\<in>set d. set (keys row))) Channels_COLUMN_ORDER
              @ sorted_minus (all_fields_of d) Channels_COLUMN_ORDER
         \<and> set (sorted_minus (all_fields_of d) Channels_COLUMN_ORDER)
              = (\<Union>row\<in>set d. set (keys row)) - set Channels_COLUMN_ORDER
         \<and> sorted (sorted_minus (all_fields_of d) Channels_COLUMN_ORDER)
         \<and> set (Channels_fieldnames d) = (\<Union>row\<in>set d. set (keys row))
         \<and> distinct (Channels_fieldnames d)
         \<and> length (map (cells (Channels_fieldnames d)) d) = length d)
   \<and> (list_all (\<lambda>row. list_all (\<lambda>k. k \<in> set (keys r)) (keys row)) rs
     \<longrightarrow> fst (TSVSidecar_write_data file_path (DataRows (r # rs)) w) = None
         \<and> files (snd (TSVSidecar_write_data file_path (DataRows (r # rs)) w)) file_path
            = Some (TSVFile (keys r) (map (cells (keys r)) (r # rs))))
   \<and> (\<not> list_all (\<lambda>row. list_all (\<lambda>k. k \<in> set (keys r)) (keys row)) rs
     \<longrightarrow> fst (TSVSidecar_write_data file_path (DataRows (r # rs)) w) = Some ValueError_ExtraFields)
   \<and> (list_all (\<lambda>row. list_all (\<lambda>k. k \<in> set (keys r)) (keys row)) (take n rs)
      \<and> n < length rs \<and> \<not> list_all (\<lambda>k. k \<in> set (keys r)) (keys (rs ! n))
     \<longrightarrow> fst (TSVSidecar_write_data file_path (DataRows (r # rs)) w) = Some ValueError_ExtraFields
         \<and> files (snd (TSVSidecar_write_data file_path (DataRows (r # rs)) w)) file_path
            = Some (TSVFile (keys r) (map (cells (keys r)) (r # take n rs))))"
proof (intro conjI impI)
  assume h: "d = (case sv_data kwargs of None \<Rightarrow> rows self | Some x \<Rightarrow> x) \<and> d \<noteq> []
      \<and> (sv_validate kwargs \<longrightarrow> no_overflow Channels_numeric_fields d)
      \<and> os_path_dirname (Channels_output_path output_path kwargs) \<noteq> []"
  have "\<exists>w1. save_validation (\<lambda>d. ChannelsSidecar_validate self (Some (DataRows d))) d
                  (sv_validate kwargs) w = Inr w1 \<and> files w1 = files w"
  proof (cases "sv_validate kwargs")
    case True
    with h have "no_overflow Channels_numeric_fields d" by blast
    from ChannelsSidecar_validate_returns [OF this] obtain ok rep where
      "ChannelsSidecar_validate self (Some (DataRows d)) = Inr (ok, rep)" by blast
    then show ?thesis by (rule save_validation_returns)
  next
    case False
    then show ?thesis by (simp add: save_validation_def)
  qed
  then obtain w1 where v: "save_validation (\<lambda>d. ChannelsSidecar_validate self (Some (DataRows d))) d
                  (sv_validate kwargs) w = Inr w1" and fw: "files w1 = files w" by blast
  from h have d: "d = (case sv_data kwargs of None \<Rightarrow> rows self | Some x \<Rightarrow> x)"
    and p: "os_path_dirname (Channels_output_path output_path kwargs) \<noteq> []" by blast+
  note S = ChannelsSidecar_save_writes [OF v d p]
  show "fst (ChannelsSidecar_save self output_path kwargs w) = Inr (Channels_output_path output_path kwargs)"
    by (simp add: S)
  show "files (snd (ChannelsSidecar_save self output_path kwargs w))
              (Channels_output_path output_path kwargs)
            = Some (TSVFile (Channels_fieldnames d) (map (cells (Channels_fieldnames d)) d))"
    by (simp add: S)
  from h have dne: "d \<noteq> []" by blast
  from dne show "Channels_fieldnames d =
              filter (\<lambda>c. c \<in> (\<Union>row\<in>set d. set (keys row))) Channels_COLUMN_ORDER
              @ sorted_minus (all_fields_of d) Channels_COLUMN_ORDER"
    by (simp add: Channels_fieldnames_def Let_def set_all_fields_of)
  show "set (sorted_minus (all_fields_of d) Channels_COLUMN_ORDER)
              = (\<Union>row\<in>set d. set (keys row)) - set Channels_COLUMN_ORDER"
    by (simp add: set_sorted_minus set_all_fields_of)
  show "sorted (sorted_minus (all_fields_of d) Channels_COLUMN_ORDER)"
    by (rule sorted_sorted_minus)
  from dne show "set (Channels_fieldnames d) = (\<Union>row\<in>set d. set (keys row))"
    by (rule Channels_fieldnames_set)
  show "distinct (Channels_fieldnames d)" by (rule Channels_fieldnames_distinct)
  show "length (map (cells (Channels_fieldnames d)) d) = length d" by simp
next
  assume h: "list_all (\<lambda>row. list_all (\<lambda>k. k \<in> set (keys r)) (keys row)) rs"
  note W = TSVSidecar_write_data_rows [OF h, of file_path w]
  show "fst (TSVSidecar_write_data file_path (DataRows (r # rs)) w) = None" by (simp add: W)
  show "files (snd (TSVSidecar_write_data file_path (DataRows (r # rs)) w)) file_path
            = Some (TSVFile (keys r) (map (cells (keys r)) (r # rs)))"
    by (simp add: W)
next
  let ?ok = "\<lambda>row. list_all (\<lambda>k. k \<in> set (keys r)) (keys row)"
  assume h: "\<not> list_all ?ok rs"
  define m where "m = length (takeWhile ?ok rs)"
  have tk: "takeWhile ?ok rs = take m rs" unfolding m_def by (rule takeWhile_eq_take)
  have le: "m \<le> length rs" unfolding m_def by (rule length_takeWhile_le)
  have ne: "m \<noteq> length rs"
  proof
    assume "m = length rs"
    with tk have "takeWhile ?ok rs = rs" by simp
    then have "\<forall>x\<in>set rs. ?ok x" by (simp only: takeWhile_eq_all_conv)
    with h show False by (simp only: list_all_iff)
  qed
  from le ne have ml: "m < length rs" by simp
  have "\<forall>x\<in>set (takeWhile ?ok rs). ?ok x" by (blast dest: set_takeWhileD)
  then have "\<forall>x\<in>set (take m rs). ?ok x" by (simp only: tk)
  then have pre: "list_all ?ok (take m rs)" by (simp add: list_all_iff)
  from ml have bad: "\<not> ?ok (rs ! m)" unfolding m_def by (rule nth_length_takeWhile)
  from TSVSidecar_write_data_extra [OF pre ml bad, of file_path w]
  show "fst (TSVSidecar_write_data file_path (DataRows (r # rs)) w) = Some ValueError_ExtraFields"
    by simp
next
  assume h: "list_all (\<lambda>row. list_all (\<lambda>k. k \<in> set (keys r)) (keys row)) (take n rs)
      \<and> n < length rs \<and> \<not> list_all (\<lambda>k. k \<in> set (keys r)) (keys (rs ! n))"
  then have pre: "list_all (\<lambda>row. list_all (\<lambda>k. k \<in> set (keys r)) (keys row)) (take n rs)"
    and nl: "n < length rs" and bad: "\<not> list_all (\<lambda>k. k \<in> set (keys r)) (keys (rs ! n))"
    by blast+
  note X = TSVSidecar_write_data_extra [OF pre nl bad, of file_path w]
  show "fst (TSVSidecar_write_data file_path (DataRows (r # rs)) w) = Some ValueError_ExtraFields"
    by (simp add: X)
  show "files (snd (TSVSidecar_write_data file_path (DataRows (r # rs)) w)) file_path
            = Some (TSVFile (keys r) (map (cells (keys r)) (r # take n rs)))"
    by (simp add: X)
qed

theorem tsv_header_and_records_witness:
  "(\<exists>self. ChannelsSidecar_init [sample_channel_row] [] = Instance self []
      \<and> fst (ChannelsSidecar_save self (Some ''out/channels.tsv'') save_defaults world0)
          = Inr ''out/channels.tsv''
      \<and> files (snd (ChannelsSidecar_save self (Some ''out/channels.tsv'') save_defaults world0))
            ''out/channels.tsv''
          = Some (TSVFile [''name'', ''type'', ''units'', ''low_cutoff'', ''high_cutoff'', ''reference'',
                           ''ground'', ''group'', ''sampling_frequency'', ''notch'']
                   [[PStr ''LA01'', PStr ''SEEG'', PStr ''uV'', PStr ''n/a'', PStr ''fast'', PStr ''LE10'',
                     PStr ''RF6'', PStr ''LA'', PInt 256, PStr ''n/a'']]))
   \<and> files (snd (TSVSidecar_write_data ''out/events.tsv''
                    (DataRows [[(''onset'', PInt 1), (''duration'', PInt 2)], [(''onset'', PInt 5)]])
                    world0)) ''out/events.tsv''
      = Some (TSVFile [''onset'', ''duration''] [[PInt 1, PInt 2], [PInt 5, PStr []]])
   \<and> fst (TSVSidecar_write_data ''out/events.tsv''
            (DataRows [[(''onset'', PInt 1), (''duration'', PInt 2)], [(''onset'', PInt 5)],
                       [(''onset'', PInt 6), (''value'', PInt 7)], [(''onset'', PInt 8)]])
            world0) = Some ValueError_ExtraFields
   \<and> files (snd (TSVSidecar_write_data ''out/events.tsv''
                    (DataRows [[(''onset'', PInt 1), (''duration'', PInt 2)], [(''onset'', PInt 5)],
                               [(''onset'', PInt 6), (''value'', PInt 7)], [(''onset'', PInt 8)]])
                    world0)) ''out/events.tsv''
      = Some (TSVFile [''onset'', ''duration''] [[PInt 1, PInt 2], [PInt 5, PStr []]])"
proof -
  let ?d = "[dict_merge Channels_ROW_DEFAULTS sample_channel_row]"
  let ?self = "\<lparr>paths = default_paths, data = [], rows = ?d\<rparr>"
  have i: "ChannelsSidecar_init [sample_channel_row] [] = Instance ?self []" by code_simp
  have h: "?d = (case sv_data (save_defaults :: (pydict list) save_kwargs) of
                   None \<Rightarrow> rows ?self | Some x \<Rightarrow> x) \<and> ?d \<noteq> []
      \<and> (sv_validate (save_defaults :: (pydict list) save_kwargs)
            \<longrightarrow> no_overflow Channels_numeric_fields ?d)
      \<and> os_path_dirname (Channels_output_path (Some ''out/channels.tsv'')
                            (save_defaults :: (pydict list) save_kwargs)) \<noteq> []"
    by (simp add: save_defaults_def Channels_output_path_def os_path_dirname_def rfind_def)
  have p: "Channels_output_path (Some ''out/channels.tsv'') (save_defaults :: (pydict list) save_kwargs)
           = ''out/channels.tsv''"
    by (simp add: Channels_output_path_def)
  have f: "Channels_fieldnames ?d = [''name'', ''type'', ''units'', ''low_cutoff'', ''high_cutoff'',
             ''reference'', ''ground'', ''group'', ''sampling_frequency'', ''notch'']"
    by code_simp
  have c: "map (cells [''name'', ''type'', ''units'', ''low_cutoff'', ''high_cutoff'',
             ''reference'', ''ground'', ''group'', ''sampling_frequency'', ''notch'']) ?d
           = [[PStr ''LA01'', PStr ''SEEG'', PStr ''uV'', PStr ''n/a'', PStr ''fast'', PStr ''LE10'',
                 PStr ''RF6'', PStr ''LA'', PInt 256, PStr ''n/a'']]"
    by code_simp
  note T = tsv_header_and_records [where d = ?d and kwargs = "save_defaults :: (pydict list) save_kwargs"
      and self = ?self and output_path = "Some ''out/channels.tsv''" and w = world0,
      THEN conjunct1, rule_format, OF h]
  have a: "fst (ChannelsSidecar_save ?self (Some ''out/channels.tsv'') save_defaults world0)
           = Inr ''out/channels.tsv''"
    using T [THEN conjunct1] by (simp only: p)
  have b: "files (snd (ChannelsSidecar_save ?self (Some ''out/channels.tsv'') save_defaults world0))
             ''out/channels.tsv''
           = Some (TSVFile [''name'', ''type'', ''units'', ''low_cutoff'', ''high_cutoff'', ''reference'',
                       ''ground'', ''group'', ''sampling_frequency'', ''notch'']
               [[PStr ''LA01'', PStr ''SEEG'', PStr ''uV'', PStr ''n/a'', PStr ''fast'', PStr ''LE10'',
                 PStr ''RF6'', PStr ''LA'', PInt 256, PStr ''n/a'']])"
    using T [THEN conjunct2, THEN conjunct1] by (simp only: p f c)
  have k: "list_all (\<lambda>row. list_all (\<lambda>k. k \<in> set (keys [(''onset'', PInt 1), (''duration'', PInt 2)]))
                             (keys row)) [[(''onset'', PInt 5)]]"
    by (simp add: keys_def)
  have e: "files (snd (TSVSidecar_write_data ''out/events.tsv''
                    (DataRows [[(''onset'', PInt 1), (''duration'', PInt 2)], [(''onset'', PInt 5)]])
                    world0)) ''out/events.tsv''
      = Some (TSVFile [''onset'', ''duration''] [[PInt 1, PInt 2], [PInt 5, PStr []]])"
    using tsv_header_and_records [where r = "[(''onset'', PInt 1), (''duration'', PInt 2)]"
        and rs = "[[(''onset'', PInt 5)]]" and file_path = "''out/events.tsv''" and w = world0,
        THEN conjunct2, THEN conjunct1, rule_format, OF k, THEN conjunct2]
    by (simp add: keys_def cells_def dict_get_def)
  let ?r = "[(''onset'', PInt 1), (''duration'', PInt 2)]"
  let ?rs = "[[(''onset'', PInt 5)], [(''onset'', PInt 6), (''value'', PInt 7)], [(''onset'', PInt 8)]]"
  have x1: "\<not> list_all (\<lambda>row. list_all (\<lambda>k. k \<in> set (keys ?r)) (keys row)) ?rs"
    by (simp add: keys_def)
  have x2: "list_all (\<lambda>row. list_all (\<lambda>k. k \<in> set (keys ?r)) (keys row)) (take 1 ?rs)
      \<and> 1 < length ?rs \<and> \<not> list_all (\<lambda>k. k \<in> set (keys ?r)) (keys (?rs ! 1))"
    by (simp add: keys_def)
  have g: "fst (TSVSidecar_write_data ''out/events.tsv'' (DataRows (?r # ?rs)) world0)
             = Some ValueError_ExtraFields"
    using tsv_header_and_records [where r = ?r and rs = ?rs and file_path = "''out/events.tsv''"
        and w = world0, THEN conjunct2, THEN conjunct2, THEN conjunct1, rule_format, OF x1] .
  have j: "files (snd (TSVSidecar_write_data ''out/events.tsv'' (DataRows (?r # ?rs)) world0))
             ''out/events.tsv''
           = Some (TSVFile [''onset'', ''duration''] [[PInt 1, PInt 2], [PInt 5, PStr []]])"
    using tsv_header_and_records [where r = ?r and rs = ?rs and n = 1 and file_path = "''out/events.tsv''"
        and w = world0, THEN conjunct2, THEN conjunct2, THEN conjunct2, rule_format, OF x2,
        THEN conjunct2]
    by (simp add: keys_def cells_def dict_get_def)
  from i a b e g j show ?thesis by blast
qed

text \<open>
  The claim as stated fails for the electrodes sidecar: the header is the first row's keys in
  insertion order (the defaults, then the supplied keys), which is not the sorted order, and
  a key that only a later row has is an error instead of a column.
\<close>

theorem electrodes_header_counterexample:
  "(\<exists>self. ElectrodesSidecar_init [sample_electrode_row] [] = Instance self []
      \<and> files (snd (TSVSidecar_write_data ''out/electrodes.tsv'' (DataRows (rows self)) world0))
           ''out/electrodes.tsv''
         = Some (TSVFile [''size'', ''material'', ''manufacturer'', ''group'', ''hemisphere'', ''name'',
                          ''x'', ''y'', ''z'']
                  [[PStr ''n/a'', PStr ''n/a'', PStr ''n/a'', PStr ''n/a'', PStr ''n/a'', PStr ''LA01'',
                    PStr ''left'', PFloat 3 (- 1), PInt 4]]))
   \<and> sort [''size'', ''material'', ''manufacturer'', ''group'', ''hemisphere'', ''name'', ''x'', ''y'', ''z'']
       = [''group'', ''hemisphere'', ''manufacturer'', ''material'', ''name'', ''size'', ''x'', ''y'', ''z'']
   \<and> (\<exists>self. ElectrodesSidecar_init
                [sample_electrode_row, sample_electrode_row @ [(''impedance'', PInt 5)]] []
              = Instance self []
      \<and> fst (TSVSidecar_write_data ''out/electrodes.tsv'' (DataRows (rows self)) world0)
          = Some ValueError_ExtraFields)"
proof -
  let ?r = "dict_merge Electrodes_ROW_DEFAULTS sample_electrode_row"
  let ?r2 = "dict_merge Electrodes_ROW_DEFAULTS (sample_electrode_row @ [(''impedance'', PInt 5)])"
  let ?s1 = "\<lparr>paths = default_paths, data = [], rows = [?r]\<rparr>"
  let ?s2 = "\<lparr>paths = default_paths, data = [], rows = [?r, ?r2]\<rparr>"
  have i1: "ElectrodesSidecar_init [sample_electrode_row] [] = Instance ?s1 []" by code_simp
  have i2: "ElectrodesSidecar_init [sample_electrode_row, sample_electrode_row @ [(''impedance'', PInt 5)]] []
            = Instance ?s2 []" by code_simp
  have a: "files (snd (TSVSidecar_write_data ''out/electrodes.tsv'' (DataRows (rows ?s1)) world0))
           ''out/electrodes.tsv''
         = Some (TSVFile [''size'', ''material'', ''manufacturer'', ''group'', ''hemisphere'', ''name'',
                          ''x'', ''y'', ''z'']
                  [[PStr ''n/a'', PStr ''n/a'', PStr ''n/a'', PStr ''n/a'', PStr ''n/a'', PStr ''LA01'',
                    PStr ''left'', PFloat 3 (- 1), PInt 4]])"
    by code_simp
  have b: "sort [''size'', ''material'', ''manufacturer'', ''group'', ''hemisphere'', ''name'', ''x'', ''y'', ''z'']
       = [''group'', ''hemisphere'', ''manufacturer'', ''material'', ''name'', ''size'', ''x'', ''y'', ''z'']"
    by code_simp
  have c: "fst (TSVSidecar_write_data ''out/electrodes.tsv'' (DataRows (rows ?s2)) world0)
          = Some ValueError_ExtraFields"
    by code_simp
  from i1 i2 a b c show ?thesis by blast
qed

lemma Sidecar_save_empty_rows:
  assumes "sv_data kwargs = Some (DataRows [])"
    and "sv_validate kwargs \<longrightarrow> (\<exists>ok rep. validate (DataRows []) = Inr (ok, rep))"
  shows "fst (Sidecar_save validate TSVSidecar_write_data filename self_data kwargs w) = Inl ValueError_NoData
         \<and> files (snd (Sidecar_save validate TSVSidecar_write_data filename self_data kwargs w)) = files w"
proof -
  have "\<exists>w1. save_validation validate (DataRows []) (sv_validate kwargs) w = Inr w1 \<and> files w1 = files w"
  proof (cases "sv_validate kwargs")
    case True
    with assms(2) obtain ok rep where "validate (DataRows []) = Inr (ok, rep)" by blast
    then show ?thesis by (rule save_validation_returns)
  next
    case False
    then show ?thesis by (simp add: save_validation_def)
  qed
  then obtain w1 where "save_validation validate (DataRows []) (sv_validate kwargs) w = Inr w1"
    and "files w1 = files w" by blast
  then show ?thesis
    using assms(1) by (simp add: Sidecar_save_def Let_def save_path_dirname TSVSidecar_write_data_def)
qed

lemma not_a_list_returns: "\<exists>ok rep. Inr not_a_list = (Inr (ok, rep) :: py_error + bool \<times> report)"
  by (cases not_a_list) auto

text \<open>
  Claim C8, as the code has it. \<open>TSVSidecar.write_data\<close> raises on an empty row sequence
  before it opens the file, so saving an electrodes or events sidecar with an empty row list
  fails with that error and leaves the files as they were. \<open>ChannelsSidecar.save\<close> does not
  go through \<open>write_data\<close>: with an empty row sequence and an output path that has a
  directory part it writes a file that holds the \<open>COLUMN_ORDER\<close> header and no record, and
  returns its path.
\<close>

theorem empty_rows_write:
  "TSVSidecar_write_data file_path (DataRows []) w = (Some ValueError_NoData, w)
   \<and> (sv_data kwargs = Some (DataRows []) \<longrightarrow>
        fst (ElectrodesSidecar_save self kwargs w) = Inl ValueError_NoData
        \<and> files (snd (ElectrodesSidecar_save self kwargs w)) = files w
        \<and> fst (EventsSidecar_save self kwargs w) = Inl ValueError_NoData
        \<and> files (snd (EventsSidecar_save self kwargs w)) = files w)
   \<and> ((case sv_data ckwargs of None \<Rightarrow> rows self | Some x \<Rightarrow> x) = []
        \<and> os_path_dirname (Channels_output_path output_path ckwargs) \<noteq> [] \<longrightarrow>
        fst (ChannelsSidecar_save self output_path ckwargs w) = Inr (Channels_output_path output_path ckwargs)
        \<and> files (snd (ChannelsSidecar_save self output_path ckwargs w))
             (Channels_output_path output_path ckwargs)
           = Some (TSVFile Channels_COLUMN_ORDER []))"
proof (intro conjI impI)
  show "TSVSidecar_write_data file_path (DataRows []) w = (Some ValueError_NoData, w)"
    by (simp add: TSVSidecar_write_data_def)
next
  assume h: "sv_data kwargs = Some (DataRows [])"
  have e: "sv_validate kwargs \<longrightarrow>
      (\<exists>ok rep. ElectrodesSidecar_validate self (Some (DataRows [])) = Inr (ok, rep))"
    using not_a_list_returns by (simp add: ElectrodesSidecar_validate_def)
  have v: "sv_validate kwargs \<longrightarrow>
      (\<exists>ok rep. EventsSidecar_validate self (Some (DataRows [])) = Inr (ok, rep))"
    using not_a_list_returns by (simp add: EventsSidecar_validate_def)
  note E = Sidecar_save_empty_rows [where validate = "\<lambda>d. ElectrodesSidecar_validate self (Some d)",
      OF h e, folded ElectrodesSidecar_save_def]
  note V = Sidecar_save_empty_rows [where validate = "\<lambda>d. EventsSidecar_validate self (Some d)",
      OF h v, folded EventsSidecar_save_def]
  show "fst (ElectrodesSidecar_save self kwargs w) = Inl ValueError_NoData"
    unfolding ElectrodesSidecar_save_def using E by blast
  show "files (snd (ElectrodesSidecar_save self kwargs w)) = files w"
    unfolding ElectrodesSidecar_save_def using E by blast
  show "fst (EventsSidecar_save self kwargs w) = Inl ValueError_NoData"
    unfolding EventsSidecar_save_def using V by blast
  show "files (snd (EventsSidecar_save self kwargs w)) = files w"
    unfolding EventsSidecar_save_def using V by blast
next
  assume h: "(case sv_data ckwargs of None \<Rightarrow> rows self | Some x \<Rightarrow> x) = []
        \<and> os_path_dirname (Channels_output_path output_path ckwargs) \<noteq> []"
  have "no_overflow Channels_numeric_fields []" by (simp add: no_overflow_def)
  from ChannelsSidecar_validate_returns [OF this] obtain ok rep where
    "ChannelsSidecar_validate self (Some (DataRows [])) = Inr (ok, rep)" by blast
  then have "\<exists>w1. save_validation (\<lambda>d. ChannelsSidecar_validate self (Some (DataRows d))) []
                      (sv_validate ckwargs) w = Inr w1 \<and> files w1 = files w"
    by (rule save_validation_returns)
  then obtain w1 where v: "save_validation (\<lambda>d. ChannelsSidecar_validate self (Some (DataRows d))) []
                      (sv_validate ckwargs) w = Inr w1" by blast
  from h have d: "[] = (case sv_data ckwargs of None \<Rightarrow> rows self | Some x \<Rightarrow> x)"
    and p: "os_path_dirname (Channels_output_path output_path ckwargs) \<noteq> []" by simp_all
  note S = ChannelsSidecar_save_writes [OF v d p]
  show "fst (ChannelsSidecar_save self output_path ckwargs w) = Inr (Channels_output_path output_path ckwargs)"
    by (simp add: S)
  show "files (snd (ChannelsSidecar_save self output_path ckwargs w))
             (Channels_output_path output_path ckwargs)
           = Some (TSVFile Channels_COLUMN_ORDER [])"
    by (simp add: S Channels_fieldnames_def)
qed

theorem empty_rows_write_witness:
  "(\<exists>self. ElectrodesSidecar_init [] [] = Instance self []
      \<and> fst (ElectrodesSidecar_save self (save_defaults\<lparr>sv_data := Some (DataRows [])\<rparr>) world0)
          = Inl ValueError_NoData
      \<and> files (snd (ElectrodesSidecar_save self (save_defaults\<lparr>sv_data := Some (DataRows [])\<rparr>) world0))
          = Map.empty)
   \<and> (\<exists>self. ChannelsSidecar_init [] [] = Instance self []
      \<and> fst (ChannelsSidecar_save self None save_defaults world0) = Inr ''output/tsv/channels.tsv''
      \<and> files (snd (ChannelsSidecar_save self None save_defaults world0)) ''output/tsv/channels.tsv''
          = Some (TSVFile Channels_COLUMN_ORDER []))"
proof -
  let ?self = "\<lparr>paths = default_paths, data = [], rows = []\<rparr>"
  have ei: "ElectrodesSidecar_init [] [] = Instance ?self []" by code_simp
  have ci: "ChannelsSidecar_init [] [] = Instance ?self []" by code_simp
  have h1: "sv_data (save_defaults\<lparr>sv_data := Some (DataRows [])\<rparr>) = Some (DataRows [])" by simp
  have p: "Channels_output_path None (save_defaults :: (pydict list) save_kwargs) = ''output/tsv/channels.tsv''"
    by (simp add: Channels_output_path_def save_defaults_def os_path_join_def startswith_def endswith_def)
  have h2: "(case sv_data (save_defaults :: (pydict list) save_kwargs) of
               None \<Rightarrow> rows ?self | Some x \<Rightarrow> x) = []
        \<and> os_path_dirname (Channels_output_path None (save_defaults :: (pydict list) save_kwargs)) \<noteq> []"
    unfolding p
    by (simp add: save_defaults_def os_path_dirname_def rfind_def)
  note A = empty_rows_write [where kwargs = "save_defaults\<lparr>sv_data := Some (DataRows [])\<rparr>"
      and self = ?self and w = world0,
      THEN conjunct2, THEN conjunct1, rule_format, OF h1]
  note B = empty_rows_write [where ckwargs = "save_defaults :: (pydict list) save_kwargs"
      and self = ?self and output_path = None and w = world0,
      THEN conjunct2, THEN conjunct2, rule_format, OF h2]
  from A have a1: "fst (ElectrodesSidecar_save ?self
          (save_defaults\<lparr>sv_data := Some (DataRows [])\<rparr>) world0) = Inl ValueError_NoData"
    and a2: "files (snd (ElectrodesSidecar_save ?self
                    (save_defaults\<lparr>sv_data := Some (DataRows [])\<rparr>) world0)) = files world0"
    by blast+
  from B have b1: "fst (ChannelsSidecar_save ?self None save_defaults world0)
       = Inr ''output/tsv/channels.tsv''"
    and b2: "files (snd (ChannelsSidecar_save ?self None save_defaults world0))
       ''output/tsv/channels.tsv'' = Some (TSVFile Channels_COLUMN_ORDER [])"
    unfolding p by blast+
  from a2 have a3: "files (snd (ElectrodesSidecar_save ?self
                    (save_defaults\<lparr>sv_data := Some (DataRows [])\<rparr>) world0)) = Map.empty"
    by (simp add: world0_def)
  from ei a1 a3 have e: "\<exists>self. ElectrodesSidecar_init [] [] = Instance self []
      \<and> fst (ElectrodesSidecar_save self (save_defaults\<lparr>sv_data := Some (DataRows [])\<rparr>) world0)
          = Inl ValueError_NoData
      \<and> files (snd (ElectrodesSidecar_save self (save_defaults\<lparr>sv_data := Some (DataRows [])\<rparr>) world0))
          = Map.empty"
    by blast
  from ci b1 b2 have c: "\<exists>self. ChannelsSidecar_init [] [] = Instance self []
      \<and> fst (ChannelsSidecar_save self None save_defaults world0) = Inr ''output/tsv/channels.tsv''
      \<and> files (snd (ChannelsSidecar_save self None save_defaults world0)) ''output/tsv/channels.tsv''
          = Some (TSVFile Channels_COLUMN_ORDER [])"
    by blast
  from e c show ?thesis by blast
qed

text \<open>
  The claim as stated fails for the channels sidecar: saving it with no rows succeeds and
  leaves a header-only file.
\<close>

theorem channels_empty_save_counterexample:
  "\<exists>self. ChannelsSidecar_init [] [] = Instance self []
     \<and> rows self = []
     \<and> fst (ChannelsSidecar_save self (Some ''out/channels.tsv'') save_defaults world0)
         = Inr ''out/channels.tsv''
     \<and> files (snd (ChannelsSidecar_save self (Some ''out/channels.tsv'') save_defaults world0))
          ''out/channels.tsv''
        = Some (TSVFile [''name'', ''type'', ''units'', ''low_cutoff'', ''high_cutoff'', ''reference'',
                         ''ground'', ''group'', ''sampling_frequency'', ''notch''] [])"
proof -
  let ?self = "\<lparr>paths = default_paths, data = [], rows = []\<rparr>"
  have i: "ChannelsSidecar_init [] [] = Instance ?self []" by code_simp
  have r: "rows ?self = []" by simp
  have a: "fst (ChannelsSidecar_save ?self (Some ''out/channels.tsv'') save_defaults world0)
         = Inr ''out/channels.tsv''"
    by code_simp
  have b: "files (snd (ChannelsSidecar_save ?self (Some ''out/channels.tsv'') save_defaults world0))
          ''out/channels.tsv''
        = Some (TSVFile [''name'', ''type'', ''units'', ''low_cutoff'', ''high_cutoff'', ''reference'',
                         ''ground'', ''group'', ''sampling_frequency'', ''notch''] [])"
    by code_simp
  from i r a b show ?thesis by blast
qed




text \<open>
  Two more ways in which \<open>save\<close> raises, whatever the validation would say: a JSON sidecar's
  \<open>validate\<close> does not take the argument \<open>save\<close> passes, and the base \<open>save\<close> of a TSV
  sidecar writes \<open>self.data\<close>, which is the empty dictionary, unless \<open>data\<close> is passed.
\<close>

lemma json_save_validate_raises:
  "\<exists>self. CoordSystemSidecar_init [] [] = Instance self []
     \<and> fst (JSONSidecar_save ''coordsystem.json'' self (save_defaults\<lparr>sv_validate := True\<rparr>) world0)
         = Inl TypeError"
proof -
  let ?self = "\<lparr>paths = default_paths, data = CoordSystem_DEFAULTS\<rparr>"
  have i: "CoordSystemSidecar_init [] [] = Instance ?self []" by code_simp
  have a: "fst (JSONSidecar_save ''coordsystem.json'' ?self (save_defaults\<lparr>sv_validate := True\<rparr>) world0)
         = Inl TypeError"
    by code_simp
  from i a show ?thesis by blast
qed

lemma tsv_base_save_without_data_raises:
  "\<exists>self. ElectrodesSidecar_init [sample_electrode_row] [] = Instance self []
     \<and> fst (ElectrodesSidecar_save self save_defaults world0) = Inl ValueError_NoData"
proof -
  let ?self = "\<lparr>paths = default_paths, data = [],
                rows = [dict_merge Electrodes_ROW_DEFAULTS sample_electrode_row]\<rparr>"
  have i: "ElectrodesSidecar_init [sample_electrode_row] [] = Instance ?self []" by code_simp
  have a: "fst (ElectrodesSidecar_save ?self save_defaults world0) = Inl ValueError_NoData"
    by code_simp
  from i a show ?thesis by blast
qed

text \<open>
  Claim C4 against the code. \<open>CoordSystemSidecar({"iEEGCoordinateSystem": "Other"})\<close> receives
  the default description through the merge with \<open>DEFAULTS\<close>, so the rule that makes the
  description required for \<open>Other\<close> finds the key and \<open>validate()\<close> returns \<open>True\<close>. The rule
  does fire on a record that lacks the key; the merge never yields such a record, and only a
  \<open>data\<close> keyword, which replaces the merged record, gives a constructed sidecar one.
\<close>

theorem coordsystem_other_validates:
  "(\<exists>self. CoordSystemSidecar_init [(''iEEGCoordinateSystem'', PStr ''Other'')] [] = Instance self []
      \<and> dict_get (data self) ''iEEGCoordinateSystemDescription''
          = Some (PStr ''Native FreeSurfer surface space.'')
      \<and> CoordSystemSidecar_validate self = (Inr True, [LogInfo_ValidationPassed]))
   \<and> CoordSystemSidecar_validate
        \<lparr>paths = [], data = [(''iEEGCoordinateSystem'', PStr ''Other''), (''iEEGCoordinateUnits'', PStr ''mm'')]\<rparr>
      = (Inl (ValueError_MissingRequired [''iEEGCoordinateSystemDescription'']), [])
   \<and> (\<exists>self attrs. CoordSystemSidecar_init [(''iEEGCoordinateSystem'', PStr ''Other'')]
           [(''data'', PDict [(''iEEGCoordinateSystem'', PStr ''Other''), (''iEEGCoordinateUnits'', PStr ''mm'')])]
         = Instance self attrs
      \<and> instance_data self attrs
          = PDict [(''iEEGCoordinateSystem'', PStr ''Other''), (''iEEGCoordinateUnits'', PStr ''mm'')])"
proof -
  let ?self = "\<lparr>paths = default_paths,
                data = dict_merge CoordSystem_DEFAULTS [(''iEEGCoordinateSystem'', PStr ''Other'')]\<rparr>"
  let ?rec = "PDict [(''iEEGCoordinateSystem'', PStr ''Other''), (''iEEGCoordinateUnits'', PStr ''mm'')]"
  have j: "CoordSystemSidecar_init [(''iEEGCoordinateSystem'', PStr ''Other'')] [(''data'', ?rec)]
             = Instance ?self [(''data'', ?rec)]"
    by code_simp
  have k: "instance_data ?self [(''data'', ?rec)] = ?rec" by code_simp
  have i: "CoordSystemSidecar_init [(''iEEGCoordinateSystem'', PStr ''Other'')] [] = Instance ?self []"
    by code_simp
  have a: "dict_get (data ?self) ''iEEGCoordinateSystemDescription''
          = Some (PStr ''Native FreeSurfer surface space.'')"
    by code_simp
  have b: "CoordSystemSidecar_validate ?self = (Inr True, [LogInfo_ValidationPassed])"
    by code_simp
  have c: "CoordSystemSidecar_validate
        \<lparr>paths = [], data = [(''iEEGCoordinateSystem'', PStr ''Other''), (''iEEGCoordinateUnits'', PStr ''mm'')]\<rparr>
      = (Inl (ValueError_MissingRequired [''iEEGCoordinateSystemDescription'']), [])"
    by code_simp
  from i a b have "\<exists>self. CoordSystemSidecar_init [(''iEEGCoordinateSystem'', PStr ''Other'')] [] = Instance self []
      \<and> dict_get (data self) ''iEEGCoordinateSystemDescription''
          = Some (PStr ''Native FreeSurfer surface space.'')
      \<and> CoordSystemSidecar_validate self = (Inr True, [LogInfo_ValidationPassed])"
    by blast
  moreover from j k have "\<exists>self attrs. CoordSystemSidecar_init [(''iEEGCoordinateSystem'', PStr ''Other'')]
           [(''data'', ?rec)] = Instance self attrs \<and> instance_data self attrs = ?rec"
    by blast
  ultimately show ?thesis using c by blast
qed

end
